theory Spec2Isabelle
  imports Main
begin

section \<open>Values and exceptions of the Python program\<close>

text \<open>
  The program is \<^verbatim>\<open>transcripts_pipeline/pipeline/transcriptiongenerator.py\<close>: the class
  \<^verbatim>\<open>LiveTranscriber\<close> with its methods \<^verbatim>\<open>load_model\<close>, \<^verbatim>\<open>setup_audio_stream\<close>,
  \<^verbatim>\<open>start_recognition\<close>, \<^verbatim>\<open>transcribe_stream\<close>, \<^verbatim>\<open>cleanup\<close> and \<^verbatim>\<open>run\<close>.

  The handlers of the source distinguish three classes of raised objects:
  \<^verbatim>\<open>except Exception\<close> catches every subclass of \<^verbatim>\<open>Exception\<close>,
  \<^verbatim>\<open>except KeyboardInterrupt\<close> catches the user's interrupt, and anything else that only
  derives from \<^verbatim>\<open>BaseException\<close> (\<^verbatim>\<open>SystemExit\<close>, \<^verbatim>\<open>GeneratorExit\<close>) passes both.
  The string is the name of the class.
\<close>

datatype exn = Exception string | KeyboardInterrupt | BaseException string

text \<open>\<^verbatim>\<open>isinstance(e, Exception)\<close>: what a handler \<^verbatim>\<open>except Exception\<close> catches.\<close>

fun is_Exception :: "exn \<Rightarrow> bool" where
  "is_Exception (Exception m) = True"
| "is_Exception KeyboardInterrupt = False"
| "is_Exception (BaseException m) = False"

type_synonym bytes = "char list"

text \<open>
  What \<^verbatim>\<open>json.loads\<close> returns. A \<^verbatim>\<open>dict\<close> is the list of its items (keys distinct, as
  in a Python dict); the payload of a number is not looked at by the program.
\<close>

datatype json =
    JNull
  | JBool bool
  | JNum int
  | JStr string
  | JArr "json list"
  | JObj "(string \<times> json) list"

text \<open>
  \<^verbatim>\<open>res.get(key, "")\<close>: only a dict has the method \<^verbatim>\<open>get\<close>; on any other value the
  attribute lookup raises \<^verbatim>\<open>AttributeError\<close>.
\<close>

fun dict_get :: "json \<Rightarrow> string \<Rightarrow> exn + json" where
  "dict_get (JObj kvs) k = (case map_of kvs k of None \<Rightarrow> Inr (JStr []) | Some v \<Rightarrow> Inr v)"
| "dict_get JNull k = Inl (Exception ''AttributeError'')"
| "dict_get (JBool b) k = Inl (Exception ''AttributeError'')"
| "dict_get (JNum n) k = Inl (Exception ''AttributeError'')"
| "dict_get (JStr s) k = Inl (Exception ''AttributeError'')"
| "dict_get (JArr xs) k = Inl (Exception ''AttributeError'')"

text \<open>
  \<^verbatim>\<open>str.isspace\<close> on one character, for the code points below 256 that a \<^typ>\<open>char\<close>
  holds: U+0009 to U+000D, U+001C to U+0020, U+0085 and U+00A0.
\<close>

definition py_isspace :: "char \<Rightarrow> bool" where
  "py_isspace c =
     (let n = of_char c :: nat
      in (9 \<le> n \<and> n \<le> 13) \<or> (28 \<le> n \<and> n \<le> 32) \<or> n = 133 \<or> n = 160)"

text \<open>\<^verbatim>\<open>s.strip()\<close>: leading and trailing whitespace removed.\<close>

definition lstrip :: "string \<Rightarrow> string" where
  "lstrip s = dropWhile py_isspace s"

definition rstrip :: "string \<Rightarrow> string" where
  "rstrip s = rev (dropWhile py_isspace (rev s))"

definition strip :: "string \<Rightarrow> string" where
  "strip s = rstrip (lstrip s)"

text \<open>
  \<^verbatim>\<open>v.strip()\<close> on the value a dict lookup gave: only a \<^verbatim>\<open>str\<close> has the method.
\<close>

fun json_strip :: "json \<Rightarrow> exn + string" where
  "json_strip (JStr s) = Inr (strip s)"
| "json_strip JNull = Inl (Exception ''AttributeError'')"
| "json_strip (JBool b) = Inl (Exception ''AttributeError'')"
| "json_strip (JNum n) = Inl (Exception ''AttributeError'')"
| "json_strip (JArr xs) = Inl (Exception ''AttributeError'')"
| "json_strip (JObj kvs) = Inl (Exception ''AttributeError'')"

text \<open>\<^verbatim>\<open>res.get(key, "").strip()\<close>.\<close>

definition get_stripped :: "json \<Rightarrow> string \<Rightarrow> exn + string" where
  "get_stripped res k = (case dict_get res k of Inl e \<Rightarrow> Inl e | Inr v \<Rightarrow> json_strip v)"

section \<open>Events, the session object and the trace of what it does\<close>

text \<open>
  The dict that \<^verbatim>\<open>transcribe_stream\<close> yields, with its four keys
  \<^verbatim>\<open>type\<close>, \<^verbatim>\<open>text\<close>, \<^verbatim>\<open>timestamp\<close> and \<^verbatim>\<open>raw_result\<close>.
\<close>

record event =
  ev_type :: string
  ev_text :: string
  ev_timestamp :: string
  ev_raw_result :: json

text \<open>
  The four fields that \<^verbatim>\<open>__init__\<close> sets to \<^verbatim>\<open>None\<close>. The objects behind them belong to
  PyAudio and Vosk; the model holds a number that names each.
\<close>

record transcriber =
  model :: "nat option"
  recognizer :: "nat option"
  stream :: "nat option"
  p :: "nat option"

text \<open>\<^verbatim>\<open>__init__\<close> with a config object: all four fields are \<^verbatim>\<open>None\<close>.\<close>

definition init :: transcriber where
  "init = \<lparr>model = None, recognizer = None, stream = None, p = None\<rparr>"

text \<open>
  Everything the program does to the outside, in the order it does it: calls of the
  audio and recognizer objects, the caller's callback, the lines it prints, the events it
  yields. A read is recorded with what it returned.
\<close>

datatype action =
    Log string
  | NewModel string
  | NewPyAudio
  | OpenStream nat "int option"
  | NewRecognizer nat
  | SetWords nat
  | StreamRead "exn + bytes"
  | Callback bytes
  | AcceptWaveform bytes
  | CallResult
  | CallPartialResult
  | Yield event
  | StopStream nat
  | CloseStream nat
  | Terminate nat

text \<open>
  How a generator stands after it was driven: still inside the loop (the script of the
  outside world ended while \<^verbatim>\<open>stream.read\<close> blocks), returned (the caller sees
  \<^verbatim>\<open>StopIteration\<close>), left by an exception, or closed by the caller's \<^verbatim>\<open>close()\<close>.
\<close>

datatype outcome = Running | Returned | Raised exn | Closed

text \<open>
  What the consumer does with a generator suspended at a \<^verbatim>\<open>yield\<close>: \<^verbatim>\<open>next()\<close>,
  \<^verbatim>\<open>throw(e)\<close> or \<^verbatim>\<open>close()\<close>.
\<close>

datatype resume = Next | Throw exn | Close

section \<open>The configuration object and the outside world\<close>

text \<open>
  The config is duck-typed: each property read either gives a value or raises (a
  \<^verbatim>\<open>ConfigManager\<close> raises \<^verbatim>\<open>NoOptionError\<close> or \<^verbatim>\<open>ValueError\<close> from its parser).
  \<^verbatim>\<open>vosk_model_path\<close> is \<^verbatim>\<open>None\<close> here when the value is not a \<^verbatim>\<open>str\<close>;
  \<^verbatim>\<open>vosk_enable_word_timing\<close> is read with \<^verbatim>\<open>getattr(..., False)\<close>, so a missing
  attribute is \<^verbatim>\<open>Inr False\<close>; \<^verbatim>\<open>device_index\<close> is \<^verbatim>\<open>None\<close> when the object has no
  such attribute.
\<close>

record config =
  vosk_model_path :: "exn + string option"
  vosk_enable_word_timing :: "exn + bool"
  sample_rate :: "exn + int"
  channels :: "exn + int"
  frame_per_buffer :: "exn + int"
  wav_format :: "exn + string"
  device_index :: "int option"

text \<open>
  One pass of the loop of \<^verbatim>\<open>transcribe_stream\<close>, as the outside world answers it: what
  \<^verbatim>\<open>stream.read\<close> gives, whether the callback raises, what \<^verbatim>\<open>AcceptWaveform\<close> returns,
  what \<^verbatim>\<open>json.loads(recognizer.Result())\<close> and \<^verbatim>\<open>json.loads(recognizer.PartialResult())\<close>
  give (\<^verbatim>\<open>Inl\<close> when the call or the parse raises), the clock, and what the consumer does when
  this pass yields an event.
\<close>

record frame_env =
  stream_read :: "exn + bytes"
  callback_raises :: "exn option"
  accept_waveform :: "exn + bool"
  result_json :: "exn + json"
  partial_json :: "exn + json"
  now_iso :: string
  reaction :: resume

section \<open>transcribe_stream\<close>

text \<open>
  The body of the inner \<^verbatim>\<open>try\<close> (source lines 176 to 195) up to its \<^verbatim>\<open>yield\<close>: the calls
  made, and either the exception that left the body or the event to yield, if any.
\<close>

definition recognize :: "frame_env \<Rightarrow> bytes \<Rightarrow> action list \<times> (exn + event option)" where
  "recognize f data =
     (case accept_waveform f of
        Inl e \<Rightarrow> ([AcceptWaveform data], Inl e)
      | Inr True \<Rightarrow>
          (case result_json f of
             Inl e \<Rightarrow> ([AcceptWaveform data, CallResult], Inl e)
           | Inr res \<Rightarrow>
               (case get_stripped res ''text'' of
                  Inl e \<Rightarrow> ([AcceptWaveform data, CallResult], Inl e)
                | Inr txt \<Rightarrow>
                    if txt \<noteq> []
                    then ([AcceptWaveform data, CallResult],
                          Inr (Some \<lparr>ev_type = ''final'', ev_text = txt,
                                     ev_timestamp = now_iso f, ev_raw_result = res\<rparr>))
                    else ([AcceptWaveform data, CallResult], Inr None)))
      | Inr False \<Rightarrow>
          (case partial_json f of
             Inl e \<Rightarrow> ([AcceptWaveform data, CallPartialResult], Inl e)
           | Inr partial \<Rightarrow>
               (case get_stripped partial ''partial'' of
                  Inl e \<Rightarrow> ([AcceptWaveform data, CallPartialResult], Inl e)
                | Inr ptxt \<Rightarrow>
                    if ptxt \<noteq> []
                    then ([AcceptWaveform data, CallPartialResult],
                          Inr (Some \<lparr>ev_type = ''partial'', ev_text = ptxt,
                                     ev_timestamp = now_iso f, ev_raw_result = partial\<rparr>))
                    else ([AcceptWaveform data, CallPartialResult], Inr None))))"

text \<open>
  Both \<^verbatim>\<open>transcribe_stream\<close> and \<^verbatim>\<open>run\<close> are generator functions. When an exception
  leaves the frame of a generator, Python replaces a \<^verbatim>\<open>StopIteration\<close> by
  \<^verbatim>\<open>RuntimeError('generator raised StopIteration')\<close> (PEP 479); every other exception
  leaves as it is.
\<close>

definition leaves_generator :: "exn \<Rightarrow> exn" where
  "leaves_generator e =
     (if e = Exception ''StopIteration'' then Exception ''RuntimeError'' else e)"

text \<open>
  The two handlers around the loop (source lines 201 to 205) for an exception that reaches
  them: a \<^verbatim>\<open>KeyboardInterrupt\<close> is printed and the generator returns; an \<^verbatim>\<open>Exception\<close> is
  printed and raised again, and so leaves the generator; anything else passes and leaves
  the generator too.
\<close>

fun outer_handler :: "exn \<Rightarrow> action list \<times> outcome" where
  "outer_handler KeyboardInterrupt =
     ([Log ''[LiveTranscriber] Transcription stopped by user''], Returned)"
| "outer_handler (Exception m) =
     ([Log ''[LiveTranscriber] Error during transcription''],
      Raised (leaves_generator (Exception m)))"
| "outer_handler (BaseException m) = ([], Raised (leaves_generator (BaseException m)))"

text \<open>
  One pass of the \<^verbatim>\<open>while True\<close> body up to its \<^verbatim>\<open>yield\<close>: it ends with an event to
  yield, with nothing to yield (the loop goes on), or with the generator left.
\<close>

datatype step = Emit event | Skip | Stop outcome

definition stopped :: "action list \<Rightarrow> exn \<Rightarrow> action list \<times> step" where
  "stopped tr e = (tr @ fst (outer_handler e), Stop (snd (outer_handler e)))"

text \<open>
  The part from the inner \<^verbatim>\<open>try\<close> on (source lines 175 to 199), after the trace \<open>tr\<close>
  of the read and the callback.
\<close>

definition feed :: "frame_env \<Rightarrow> bytes \<Rightarrow> action list \<Rightarrow> action list \<times> step" where
  "feed f data tr =
     (case recognize f data of
        (tr', Inl (Exception m)) \<Rightarrow>
          (tr @ tr' @ [Log ''[LiveTranscriber] Vosk processing error''], Skip)
      | (tr', Inl KeyboardInterrupt) \<Rightarrow> stopped (tr @ tr') KeyboardInterrupt
      | (tr', Inl (BaseException m)) \<Rightarrow> stopped (tr @ tr') (BaseException m)
      | (tr', Inr None) \<Rightarrow> (tr @ tr', Skip)
      | (tr', Inr (Some ev)) \<Rightarrow> (tr @ tr', Emit ev))"

text \<open>
  Source lines 164 to 199. \<open>cb\<close> says whether \<^verbatim>\<open>audio_callback\<close> was given (and is
  truthy). The frame count is read from the config before \<^verbatim>\<open>stream.read\<close> is called.
\<close>

definition iteration :: "config \<Rightarrow> bool \<Rightarrow> frame_env \<Rightarrow> action list \<times> step" where
  "iteration cfg cb f =
     (case frame_per_buffer cfg of
        Inl e \<Rightarrow> stopped [] e
      | Inr n \<Rightarrow>
          (case stream_read f of
             Inl e \<Rightarrow> stopped [StreamRead (Inl e)] e
           | Inr data \<Rightarrow>
               if cb then
                 (case callback_raises f of
                    None \<Rightarrow> feed f data [StreamRead (Inr data), Callback data]
                  | Some (Exception m) \<Rightarrow>
                      feed f data [StreamRead (Inr data), Callback data,
                                   Log ''[LiveTranscriber] audio_callback error'']
                  | Some KeyboardInterrupt \<Rightarrow>
                      stopped [StreamRead (Inr data), Callback data] KeyboardInterrupt
                  | Some (BaseException m) \<Rightarrow>
                      stopped [StreamRead (Inr data), Callback data] (BaseException m))
               else feed f data [StreamRead (Inr data)]))"

definition prepend :: "action list \<Rightarrow> action list \<times> outcome \<Rightarrow> action list \<times> outcome" where
  "prepend tr r = (tr @ fst r, snd r)"

text \<open>
  The loop, driven by the consumer of \<^verbatim>\<open>transcribe_stream\<close> itself. The \<^verbatim>\<open>yield\<close>
  stands inside the inner \<^verbatim>\<open>try\<close>: an \<^verbatim>\<open>Exception\<close> thrown into the generator there is
  caught by the inner handler and the loop goes on; \<^verbatim>\<open>close()\<close> raises
  \<^verbatim>\<open>GeneratorExit\<close> there, which no handler catches.
\<close>

fun transcribe_loop :: "config \<Rightarrow> bool \<Rightarrow> frame_env list \<Rightarrow> action list \<times> outcome" where
  "transcribe_loop cfg cb [] = ([], Running)"
| "transcribe_loop cfg cb (f # fs) =
     (case iteration cfg cb f of
        (tr, Skip) \<Rightarrow> prepend tr (transcribe_loop cfg cb fs)
      | (tr, Stop out) \<Rightarrow> (tr, out)
      | (tr, Emit ev) \<Rightarrow>
          (case reaction f of
             Next \<Rightarrow> prepend (tr @ [Yield ev]) (transcribe_loop cfg cb fs)
           | Throw (Exception m) \<Rightarrow>
               prepend (tr @ [Yield ev, Log ''[LiveTranscriber] Vosk processing error''])
                 (transcribe_loop cfg cb fs)
           | Throw KeyboardInterrupt \<Rightarrow>
               prepend (tr @ [Yield ev]) (outer_handler KeyboardInterrupt)
           | Throw (BaseException m) \<Rightarrow>
               prepend (tr @ [Yield ev]) (outer_handler (BaseException m))
           | Close \<Rightarrow> (tr @ [Yield ev], Closed)))"

text \<open>Source lines 150 to 205: the check of the two fields, the first print, the loop.\<close>

definition transcribe_stream ::
  "config \<Rightarrow> transcriber \<Rightarrow> bool \<Rightarrow> frame_env list \<Rightarrow> action list \<times> outcome" where
  "transcribe_stream cfg s cb fs =
     (if stream s = None \<or> recognizer s = None
      then ([], Raised (Exception ''RuntimeError''))
      else prepend [Log ''[LiveTranscriber] Starting real-time transcription'']
             (transcribe_loop cfg cb fs))"

section \<open>Setting up: load_model, setup_audio_stream, start_recognition\<close>

text \<open>
  What the libraries answer while the session is set up: \<^verbatim>\<open>Model(path)\<close>,
  \<^verbatim>\<open>pyaudio.PyAudio()\<close>, \<^verbatim>\<open>self.p.open(...)\<close>, \<^verbatim>\<open>KaldiRecognizer(model, rate)\<close>,
  whether the recognizer has an attribute \<^verbatim>\<open>SetWords\<close>, and whether \<^verbatim>\<open>SetWords(True)\<close>
  raises.
\<close>

record setup_env =
  new_model :: "exn + nat"
  new_pyaudio :: "exn + nat"
  open_stream :: "exn + nat"
  new_recognizer :: "exn + nat"
  has_SetWords :: bool
  set_words_raises :: "exn option"

text \<open>
  A method of the session gives the trace of what it did, the session as it left it, and
  the exception it raised, if any.
\<close>

type_synonym effect = "action list \<times> transcriber \<times> exn option"

text \<open>Source lines 94 to 101.\<close>

definition load_model :: "config \<Rightarrow> setup_env \<Rightarrow> transcriber \<Rightarrow> effect" where
  "load_model cfg env s =
     (case vosk_model_path cfg of
        Inl e \<Rightarrow> ([], s, Some e)
      | Inr None \<Rightarrow> ([], s, Some (Exception ''FileNotFoundError''))
      | Inr (Some path) \<Rightarrow>
          if path = [] then ([], s, Some (Exception ''FileNotFoundError''))
          else
            (case new_model env of
               Inl e \<Rightarrow> ([Log ''Loading Vosk model'', NewModel path], s, Some e)
             | Inr m \<Rightarrow>
                 ([Log ''Loading Vosk model'', NewModel path,
                   Log ''Vosk model loaded successfully!''],
                  s\<lparr>model := Some m\<rparr>, None)))"

text \<open>
  Source lines 117 to 121: the keyword \<^verbatim>\<open>input_device_index\<close> is passed to \<^verbatim>\<open>open\<close> only
  when the config has the attribute and its value is truthy.
\<close>

definition input_device_index :: "config \<Rightarrow> int option" where
  "input_device_index cfg =
     (case device_index cfg of
        None \<Rightarrow> None
      | Some i \<Rightarrow> if i \<noteq> 0 then Some i else None)"

text \<open>
  Source lines 103 to 124. No field is tested before \<^verbatim>\<open>pyaudio.PyAudio()\<close> is called;
  the four config reads that build \<^verbatim>\<open>open_kwargs\<close> come after \<^verbatim>\<open>self.p\<close> is set.
\<close>

definition setup_audio_stream :: "config \<Rightarrow> setup_env \<Rightarrow> transcriber \<Rightarrow> effect" where
  "setup_audio_stream cfg env s =
     (case new_pyaudio env of
        Inl e \<Rightarrow> ([NewPyAudio], s, Some e)
      | Inr a \<Rightarrow>
          (case wav_format cfg of
             Inl e \<Rightarrow> ([NewPyAudio], s\<lparr>p := Some a\<rparr>, Some e)
           | Inr fmt \<Rightarrow>
          (case channels cfg of
             Inl e \<Rightarrow> ([NewPyAudio], s\<lparr>p := Some a\<rparr>, Some e)
           | Inr ch \<Rightarrow>
          (case sample_rate cfg of
             Inl e \<Rightarrow> ([NewPyAudio], s\<lparr>p := Some a\<rparr>, Some e)
           | Inr rate \<Rightarrow>
          (case frame_per_buffer cfg of
             Inl e \<Rightarrow> ([NewPyAudio], s\<lparr>p := Some a\<rparr>, Some e)
           | Inr n \<Rightarrow>
          (case open_stream env of
             Inl e \<Rightarrow>
               ([NewPyAudio, OpenStream a (input_device_index cfg)], s\<lparr>p := Some a\<rparr>, Some e)
           | Inr h \<Rightarrow>
               ([NewPyAudio, OpenStream a (input_device_index cfg),
                 Log ''[LiveTranscriber] Audio stream opened''],
                s\<lparr>p := Some a, stream := Some h\<rparr>, None)))))))"

text \<open>
  The word-timing part of \<^verbatim>\<open>start_recognition\<close> (source lines 133 to 143) on the
  recognizer \<open>r\<close>: the calls made and the exception that leaves both \<^verbatim>\<open>try\<close> blocks, which
  catch \<^verbatim>\<open>Exception\<close> only.
\<close>

definition word_timing :: "config \<Rightarrow> setup_env \<Rightarrow> nat \<Rightarrow> action list \<times> exn option" where
  "word_timing cfg env r =
     (case vosk_enable_word_timing cfg of
        Inl (Exception m) \<Rightarrow> ([], None)
      | Inl KeyboardInterrupt \<Rightarrow> ([], Some KeyboardInterrupt)
      | Inl (BaseException m) \<Rightarrow> ([], Some (BaseException m))
      | Inr False \<Rightarrow> ([], None)
      | Inr True \<Rightarrow>
          if has_SetWords env then
            (case set_words_raises env of
               None \<Rightarrow> ([SetWords r], None)
             | Some (Exception m) \<Rightarrow> ([SetWords r], None)
             | Some KeyboardInterrupt \<Rightarrow> ([SetWords r], Some KeyboardInterrupt)
             | Some (BaseException m) \<Rightarrow> ([SetWords r], Some (BaseException m)))
          else ([], None))"

text \<open>Source lines 126 to 145.\<close>

definition start_recognition :: "config \<Rightarrow> setup_env \<Rightarrow> transcriber \<Rightarrow> effect" where
  "start_recognition cfg env s =
     (case model s of
        None \<Rightarrow> ([], s, Some (Exception ''RuntimeError''))
      | Some m \<Rightarrow>
          (case sample_rate cfg of
             Inl e \<Rightarrow> ([], s, Some e)
           | Inr rate \<Rightarrow>
               (case new_recognizer env of
                  Inl e \<Rightarrow> ([NewRecognizer m], s, Some e)
                | Inr r \<Rightarrow>
                    (case word_timing cfg env r of
                       (tr, Some e) \<Rightarrow> (NewRecognizer m # tr, s\<lparr>recognizer := Some r\<rparr>, Some e)
                     | (tr, None) \<Rightarrow>
                         (NewRecognizer m # tr @ [Log ''[LiveTranscriber] Vosk recognizer initialized''],
                          s\<lparr>recognizer := Some r\<rparr>, None)))))"

section \<open>cleanup\<close>

text \<open>
  Whether \<^verbatim>\<open>stream.stop_stream()\<close>, \<^verbatim>\<open>stream.close()\<close> and \<^verbatim>\<open>p.terminate()\<close> raise
  when \<^verbatim>\<open>cleanup\<close> calls them.
\<close>

record release_env =
  stop_stream_raises :: "exn option"
  close_raises :: "exn option"
  terminate_raises :: "exn option"

text \<open>
  \<^verbatim>\<open>try: call() except Exception: pass\<close>: what still leaves the statement. The handler
  around the whole body of \<^verbatim>\<open>cleanup\<close> catches \<^verbatim>\<open>Exception\<close> only as well, so what
  passes here leaves \<^verbatim>\<open>cleanup\<close>.
\<close>

fun guarded :: "exn option \<Rightarrow> exn option" where
  "guarded None = None"
| "guarded (Some (Exception m)) = None"
| "guarded (Some KeyboardInterrupt) = Some KeyboardInterrupt"
| "guarded (Some (BaseException m)) = Some (BaseException m)"

text \<open>Source lines 220 to 226: the second \<^verbatim>\<open>if\<close> and the print, after the trace \<open>tr\<close>.\<close>

definition cleanup_p :: "release_env \<Rightarrow> action list \<Rightarrow> transcriber \<Rightarrow> effect" where
  "cleanup_p rel tr s =
     (case p s of
        None \<Rightarrow> (tr @ [Log ''[LiveTranscriber] Audio resources cleaned up''], s, None)
      | Some a \<Rightarrow>
          (case guarded (terminate_raises rel) of
             Some e \<Rightarrow> (tr @ [Terminate a], s, Some e)
           | None \<Rightarrow>
               (tr @ [Terminate a, Log ''[LiveTranscriber] Audio resources cleaned up''],
                s\<lparr>p := None\<rparr>, None)))"

text \<open>Source lines 207 to 228. The fields \<^verbatim>\<open>model\<close> and \<^verbatim>\<open>recognizer\<close> are not touched.\<close>

definition cleanup :: "release_env \<Rightarrow> transcriber \<Rightarrow> effect" where
  "cleanup rel s =
     (case stream s of
        None \<Rightarrow> cleanup_p rel [] s
      | Some h \<Rightarrow>
          (case guarded (stop_stream_raises rel) of
             Some e \<Rightarrow> ([StopStream h], s, Some e)
           | None \<Rightarrow>
               (case guarded (close_raises rel) of
                  Some e \<Rightarrow> ([StopStream h, CloseStream h], s, Some e)
                | None \<Rightarrow> cleanup_p rel [StopStream h, CloseStream h] (s\<lparr>stream := None\<rparr>))))"

text \<open>\<^verbatim>\<open>cleanup\<close> called once for each element of the list, one call after the other.\<close>

fun cleanups :: "release_env list \<Rightarrow> transcriber \<Rightarrow> effect" where
  "cleanups [] s = ([], s, None)"
| "cleanups (rel # rels) s =
     (case cleanup rel s of
        (tr, s', Some e) \<Rightarrow> (tr, s', Some e)
      | (tr, s', None) \<Rightarrow>
          (case cleanups rels s' of (tr', s'', r) \<Rightarrow> (tr @ tr', s'', r)))"

section \<open>run\<close>

text \<open>
  \<^verbatim>\<open>for evt in self.transcribe_stream(audio_callback): yield evt\<close> (source lines 244 and
  245). The inner generator is only ever resumed by \<^verbatim>\<open>next()\<close>. When the consumer of
  \<^verbatim>\<open>run\<close> throws into it or closes it, the exception is raised at the \<^verbatim>\<open>yield\<close> of
  \<^verbatim>\<open>run\<close>; the inner generator is dropped and finalised with \<^verbatim>\<open>GeneratorExit\<close>, which
  none of its handlers catches, so it prints nothing.
\<close>

fun run_loop :: "config \<Rightarrow> bool \<Rightarrow> frame_env list \<Rightarrow> action list \<times> outcome" where
  "run_loop cfg cb [] = ([], Running)"
| "run_loop cfg cb (f # fs) =
     (case iteration cfg cb f of
        (tr, Skip) \<Rightarrow> prepend tr (run_loop cfg cb fs)
      | (tr, Stop out) \<Rightarrow> (tr, out)
      | (tr, Emit ev) \<Rightarrow>
          (case reaction f of
             Next \<Rightarrow> prepend (tr @ [Yield ev]) (run_loop cfg cb fs)
           | Throw e \<Rightarrow> (tr @ [Yield ev], Raised e)
           | Close \<Rightarrow> (tr @ [Yield ev], Closed)))"

text \<open>The first \<^verbatim>\<open>next()\<close> of the inner generator makes its check and its first print.\<close>

definition run_stream ::
  "config \<Rightarrow> transcriber \<Rightarrow> bool \<Rightarrow> frame_env list \<Rightarrow> action list \<times> outcome" where
  "run_stream cfg s cb fs =
     (if stream s = None \<or> recognizer s = None
      then ([], Raised (Exception ''RuntimeError''))
      else prepend [Log ''[LiveTranscriber] Starting real-time transcription'']
             (run_loop cfg cb fs))"

text \<open>The body of the \<^verbatim>\<open>try\<close> of \<^verbatim>\<open>run\<close> (source lines 240 to 245).\<close>

definition run_body ::
  "config \<Rightarrow> setup_env \<Rightarrow> bool \<Rightarrow> frame_env list \<Rightarrow> transcriber
     \<Rightarrow> action list \<times> transcriber \<times> outcome" where
  "run_body cfg env cb fs s =
     (case load_model cfg env s of
        (tr1, s1, Some e) \<Rightarrow> (tr1, s1, Raised e)
      | (tr1, s1, None) \<Rightarrow>
          (case setup_audio_stream cfg env s1 of
             (tr2, s2, Some e) \<Rightarrow> (tr1 @ tr2, s2, Raised e)
           | (tr2, s2, None) \<Rightarrow>
               (case start_recognition cfg env s2 of
                  (tr3, s3, Some e) \<Rightarrow> (tr1 @ tr2 @ tr3, s3, Raised e)
                | (tr3, s3, None) \<Rightarrow>
                    (tr1 @ tr2 @ tr3 @ fst (run_stream cfg s3 cb fs), s3,
                     snd (run_stream cfg s3 cb fs)))))"

text \<open>
  \<^verbatim>\<open>try: ... finally: self.cleanup()\<close> (source lines 238 to 249), for a body that ended
  with \<open>out\<close>: \<^verbatim>\<open>cleanup\<close> runs, and an exception that leaves it replaces what the body
  ended with.
\<close>

definition finally_cleanup ::
  "release_env \<Rightarrow> action list \<times> transcriber \<times> outcome \<Rightarrow> action list \<times> transcriber \<times> outcome" where
  "finally_cleanup rel b =
     (case b of (tr, s, out) \<Rightarrow>
        (case cleanup rel s of
           (trc, s', None) \<Rightarrow> (tr @ trc, s', out)
         | (trc, s', Some e) \<Rightarrow> (tr @ trc, s', Raised e)))"

text \<open>
  What the caller of a generator sees of the way its frame was left: an exception is the
  one that leaves the generator.
\<close>

fun surfaced :: "outcome \<Rightarrow> outcome" where
  "surfaced (Raised e) = Raised (leaves_generator e)"
| "surfaced Running = Running"
| "surfaced Returned = Returned"
| "surfaced Closed = Closed"

text \<open>
  Source lines 233 to 249. While the body is still inside the loop the generator has not
  ended and the \<^verbatim>\<open>finally\<close> block has not run. Otherwise \<^verbatim>\<open>cleanup\<close> runs and the frame
  of the generator is left.
\<close>

definition run ::
  "config \<Rightarrow> setup_env \<Rightarrow> release_env \<Rightarrow> bool \<Rightarrow> frame_env list \<Rightarrow> transcriber
     \<Rightarrow> action list \<times> transcriber \<times> outcome" where
  "run cfg env rel cb fs s =
     (if snd (snd (run_body cfg env cb fs s)) = Running
      then run_body cfg env cb fs s
      else (case finally_cleanup rel (run_body cfg env cb fs s) of
              (tr, s', out) \<Rightarrow> (tr, s', surfaced out)))"

section \<open>Reading a trace\<close>

text \<open>The events a trace yields, in order.\<close>

fun events_of :: "action list \<Rightarrow> event list" where
  "events_of [] = []"
| "events_of (Yield ev # tr) = ev # events_of tr"
| "events_of (a # tr) = events_of tr"

text \<open>
  A monitor reads a trace from left to right with a state of its own; \<open>None\<close> means
  that the trace broke the rule the monitor stands for.
\<close>

fun monitor :: "('st \<Rightarrow> action \<Rightarrow> 'st option) \<Rightarrow> 'st \<Rightarrow> action list \<Rightarrow> 'st option" where
  "monitor step st [] = Some st"
| "monitor step st (a # tr) =
     (case step st a of None \<Rightarrow> None | Some st' \<Rightarrow> monitor step st' tr)"

text \<open>
  At most one event for each frame fed to the recognizer: the state says whether a frame
  was fed since the last event. An event needs a fed frame and uses it up.
\<close>

fun emit_step :: "bool \<Rightarrow> action \<Rightarrow> bool option" where
  "emit_step fed (AcceptWaveform d) = Some True"
| "emit_step fed (Yield ev) = (if fed then Some False else None)"
| "emit_step fed a = Some fed"

definition one_event_per_frame :: "action list \<Rightarrow> bool" where
  "one_event_per_frame tr = (monitor emit_step False tr \<noteq> None)"

text \<open>
  The callback comes first: a frame that \<^verbatim>\<open>stream.read\<close> returned is handed to the
  callback before anything else happens, the recognizer is fed only the frame the callback
  has just had, and that once.
\<close>

datatype frame_state = NoFrame | Captured bytes | Delivered bytes

fun sink_step :: "frame_state \<Rightarrow> action \<Rightarrow> frame_state option" where
  "sink_step (Captured d) (Callback d') = (if d' = d then Some (Delivered d) else None)"
| "sink_step (Captured d) a = None"
| "sink_step st (StreamRead (Inr d)) = Some (Captured d)"
| "sink_step st (Callback d) = None"
| "sink_step (Delivered d) (AcceptWaveform d') = (if d' = d then Some NoFrame else None)"
| "sink_step NoFrame (AcceptWaveform d') = None"
| "sink_step st a = Some st"

definition sink_before_feed :: "action list \<Rightarrow> bool" where
  "sink_before_feed tr =
     (case monitor sink_step NoFrame tr of
        None \<Rightarrow> False
      | Some (Captured d) \<Rightarrow> False
      | Some st \<Rightarrow> True)"

fun settled :: "frame_state \<Rightarrow> bool" where
  "settled (Captured d) = False"
| "settled st = True"

text \<open>The actions that neither read, deliver, feed nor yield a frame.\<close>

fun quiet :: "action \<Rightarrow> bool" where
  "quiet (StreamRead r) = False"
| "quiet (Callback d) = False"
| "quiet (AcceptWaveform d) = False"
| "quiet CallResult = False"
| "quiet CallPartialResult = False"
| "quiet (Yield ev) = False"
| "quiet a = True"

section \<open>Concrete sessions\<close>

text \<open>
  A config whose reads all succeed, a session with all four fields set, and frames as the
  outside world may answer them.
\<close>

definition cfg_ok :: config where
  "cfg_ok = \<lparr>vosk_model_path = Inr (Some ''model''), vosk_enable_word_timing = Inr True,
     sample_rate = Inr 16000, channels = Inr 1, frame_per_buffer = Inr 1024,
     wav_format = Inr ''paInt16'', device_index = None\<rparr>"

definition ready :: transcriber where
  "ready = \<lparr>model = Some 0, recognizer = Some 1, stream = Some 2, p = Some 3\<rparr>"

text \<open>An utterance ends at this frame; the callback returns.\<close>

definition frame_final :: frame_env where
  "frame_final = \<lparr>stream_read = Inr ''f1'', callback_raises = None,
     accept_waveform = Inr True,
     result_json = Inr (JObj [(''text'', JStr '' hello world '')]),
     partial_json = Inr (JObj [(''partial'', JStr [])]),
     now_iso = ''t1'', reaction = Next\<rparr>"

text \<open>An utterance goes on at this frame; the callback raises.\<close>

definition frame_partial :: frame_env where
  "frame_partial = \<lparr>stream_read = Inr ''f2'', callback_raises = Some (Exception ''sink''),
     accept_waveform = Inr False,
     result_json = Inr (JObj [(''text'', JStr [])]),
     partial_json = Inr (JObj [(''partial'', JStr ''hel'')]),
     now_iso = ''t2'', reaction = Next\<rparr>"

text \<open>\<^verbatim>\<open>AcceptWaveform\<close> raises at this frame.\<close>

definition frame_bad :: frame_env where
  "frame_bad = \<lparr>stream_read = Inr ''f3'', callback_raises = None,
     accept_waveform = Inl (Exception ''vosk''),
     result_json = Inr (JObj [(''text'', JStr ''lost'')]),
     partial_json = Inr (JObj [(''partial'', JStr ''lost'')]),
     now_iso = ''t3'', reaction = Next\<rparr>"

text \<open>What the libraries answer when every call of the set-up succeeds.\<close>

definition env_ok :: setup_env where
  "env_ok = \<lparr>new_model = Inr 0, new_pyaudio = Inr 3, open_stream = Inr 2,
     new_recognizer = Inr 1, has_SetWords = True, set_words_raises = None\<rparr>"

text \<open>Every release call returns; every release call raises.\<close>

definition rel_ok :: release_env where
  "rel_ok = \<lparr>stop_stream_raises = None, close_raises = None, terminate_raises = None\<rparr>"

definition rel_bad :: release_env where
  "rel_bad = \<lparr>stop_stream_raises = Some (Exception ''stop''),
     close_raises = Some (Exception ''close''),
     terminate_raises = Some (Exception ''terminate'')\<rparr>"

text \<open>A release call that returns, or raises something \<^verbatim>\<open>except Exception\<close> catches.\<close>

fun ordinary :: "exn option \<Rightarrow> bool" where
  "ordinary None = True"
| "ordinary (Some e) = is_Exception e"

definition ordinary_release :: "release_env \<Rightarrow> bool" where
  "ordinary_release rel =
     (ordinary (stop_stream_raises rel) \<and> ordinary (close_raises rel) \<and>
      ordinary (terminate_raises rel))"

text \<open>The release calls \<^verbatim>\<open>cleanup\<close> makes for the handles a session holds, in its order.\<close>

definition release_calls :: "transcriber \<Rightarrow> action list" where
  "release_calls s =
     (case stream s of None \<Rightarrow> [] | Some h \<Rightarrow> [StopStream h, CloseStream h]) @
     (case p s of None \<Rightarrow> [] | Some a \<Rightarrow> [Terminate a])"

text \<open>
  What the libraries answer when the audio system starts but the device cannot be opened.
\<close>

definition env_no_device :: setup_env where
  "env_no_device = \<lparr>new_model = Inr 0, new_pyaudio = Inr 3,
     open_stream = Inl (Exception ''OSError''),
     new_recognizer = Inr 1, has_SetWords = True, set_words_raises = None\<rparr>"

text \<open>The same frame with a callback that returns.\<close>

definition silence :: "frame_env \<Rightarrow> frame_env" where
  "silence f = f\<lparr>callback_raises := None\<rparr>"

text \<open>\<^verbatim>\<open>stream.read\<close> raises at this frame; the user interrupts at this frame.\<close>

definition frame_dead :: frame_env where
  "frame_dead = \<lparr>stream_read = Inl (Exception ''OSError''), callback_raises = None,
     accept_waveform = Inr False,
     result_json = Inr (JObj []), partial_json = Inr (JObj []),
     now_iso = ''t4'', reaction = Next\<rparr>"

definition frame_interrupt :: frame_env where
  "frame_interrupt = \<lparr>stream_read = Inl KeyboardInterrupt, callback_raises = None,
     accept_waveform = Inr False,
     result_json = Inr (JObj []), partial_json = Inr (JObj []),
     now_iso = ''t5'', reaction = Next\<rparr>"

text \<open>The consumer closes the generator at the event of this frame.\<close>

definition frame_cancel :: frame_env where
  "frame_cancel = \<lparr>stream_read = Inr ''f6'', callback_raises = None,
     accept_waveform = Inr True,
     result_json = Inr (JObj [(''text'', JStr ''bye'')]), partial_json = Inr (JObj []),
     now_iso = ''t6'', reaction = Close\<rparr>"

text \<open>The same frame with a callback that raises.\<close>

definition raising :: "frame_env \<Rightarrow> frame_env" where
  "raising f = f\<lparr>callback_raises := Some (Exception ''sink'')\<rparr>"

text \<open>A consumer that resumes or closes the generator, and never throws into it.\<close>

fun never_throws :: "resume \<Rightarrow> bool" where
  "never_throws Next = True"
| "never_throws Close = True"
| "never_throws (Throw e) = False"

text \<open>The callback raises \<^verbatim>\<open>SystemExit\<close> at this frame, which ends an utterance.\<close>

definition frame_exit :: frame_env where
  "frame_exit = \<lparr>stream_read = Inr ''f7'', callback_raises = Some (BaseException ''SystemExit''),
     accept_waveform = Inr True,
     result_json = Inr (JObj [(''text'', JStr ''seven'')]), partial_json = Inr (JObj []),
     now_iso = ''t7'', reaction = Next\<rparr>"

text \<open>The consumer throws \<^verbatim>\<open>StopIteration\<close> into the generator at the event of this frame.\<close>

definition frame_stop :: frame_env where
  "frame_stop = \<lparr>stream_read = Inr ''f8'', callback_raises = None,
     accept_waveform = Inr True,
     result_json = Inr (JObj [(''text'', JStr ''eight'')]), partial_json = Inr (JObj []),
     now_iso = ''t8'', reaction = Throw (Exception ''StopIteration'')\<rparr>"

text \<open>The user interrupts while \<^verbatim>\<open>stop_stream()\<close> runs.\<close>

definition rel_interrupt :: release_env where
  "rel_interrupt = \<lparr>stop_stream_raises = Some KeyboardInterrupt, close_raises = None,
     terminate_raises = None\<rparr>"

section \<open>Auxiliary facts\<close>

lemma monitor_append:
  "monitor step st (tr @ tr') =
     (case monitor step st tr of None \<Rightarrow> None | Some st' \<Rightarrow> monitor step st' tr')"
  by (induction tr arbitrary: st) (auto split: option.splits)

lemma dropWhile_rev_hd:
  "xs \<noteq> [] \<Longrightarrow> \<not> P (hd xs) \<Longrightarrow>
     rev (dropWhile P (rev xs)) \<noteq> [] \<and> \<not> P (hd (rev (dropWhile P (rev xs))))"
  by (metis dropWhile_eq_Nil_conv dropWhile_last hd_rev last_in_set
    rev.simps(1) rev_rev_ident)

lemma dropWhile_fix: "xs = [] \<or> \<not> P (hd xs) \<Longrightarrow> dropWhile P xs = xs"
  by (cases xs) auto

lemma rstrip_idem: "rstrip (rstrip s) = rstrip s"
  by (simp add: rstrip_def)

lemma lstrip_rstrip_lstrip: "lstrip (rstrip (lstrip s)) = rstrip (lstrip s)"
proof (cases "lstrip s = []")
  case True
  then have "rstrip (lstrip s) = []" by (simp add: rstrip_def)
  then show ?thesis by (simp add: lstrip_def)
next
  case False
  then have "\<not> py_isspace (hd (lstrip s))"
    unfolding lstrip_def by (simp add: hd_dropWhile)
  with False have "rstrip (lstrip s) \<noteq> [] \<and> \<not> py_isspace (hd (rstrip (lstrip s)))"
    unfolding rstrip_def by (rule dropWhile_rev_hd)
  then show ?thesis
    unfolding lstrip_def[of "rstrip (lstrip s)"] by (intro dropWhile_fix) simp
qed

lemma strip_idem: "strip (strip s) = strip s"
  by (simp add: strip_def lstrip_rstrip_lstrip rstrip_idem)

lemma get_stripped_idem: "get_stripped res k = Inr t \<Longrightarrow> strip t = t"
  by (cases res; cases "dict_get res k")
     (auto simp: get_stripped_def strip_idem split: option.splits sum.splits elim: json_strip.elims)

lemma recognize_text:
  "recognize f d = (tr, Inr (Some ev)) \<Longrightarrow> ev_text ev \<noteq> [] \<and> strip (ev_text ev) = ev_text ev"
  by (auto simp: recognize_def get_stripped_idem split: sum.splits bool.splits if_splits)

lemma recognize_no_yield: "events_of (fst (recognize f d)) = []"
  by (auto simp: recognize_def split: sum.splits bool.splits if_splits)

lemma recognize_fed: "monitor emit_step b (fst (recognize f d)) = Some True"
  by (auto simp: recognize_def split: sum.splits bool.splits if_splits)

lemma events_of_append: "events_of (tr @ tr') = events_of tr @ events_of tr'"
  by (induction tr rule: events_of.induct) auto

lemma outer_handler_events: "events_of (fst (outer_handler e)) = []"
  by (cases e) auto

lemma outer_handler_monitor: "monitor emit_step b (fst (outer_handler e)) = Some b"
  by (cases e) auto

lemma feed_Emit:
  "feed f d tr0 = (tr, Emit ev) \<Longrightarrow> snd (recognize f d) = Inr (Some ev)"
  by (cases "recognize f d")
     (auto simp: feed_def stopped_def split: sum.splits exn.splits option.splits)

lemma iteration_Emit:
  "iteration cfg cb f = (tr, Emit ev) \<Longrightarrow>
     \<exists>d. stream_read f = Inr d \<and> snd (recognize f d) = Inr (Some ev)"
  by (auto simp: iteration_def stopped_def
           split: sum.splits exn.splits option.splits if_splits dest: feed_Emit)

lemma feed_events: "events_of tr0 = [] \<Longrightarrow> events_of (fst (feed f d tr0)) = []"
  using recognize_no_yield[of f d]
  by (cases "recognize f d")
     (auto simp: feed_def stopped_def events_of_append outer_handler_events
           split: sum.splits exn.splits option.splits)

lemma iteration_events: "events_of (fst (iteration cfg cb f)) = []"
  by (auto simp: iteration_def stopped_def events_of_append outer_handler_events feed_events
           split: sum.splits exn.splits option.splits)

lemma feed_monitor:
  "monitor emit_step b tr0 \<noteq> None \<Longrightarrow>
     \<exists>b'. monitor emit_step b (fst (feed f d tr0)) = Some b' \<and>
          (snd (feed f d tr0) \<noteq> Skip \<and> (\<forall>out. snd (feed f d tr0) \<noteq> Stop out) \<longrightarrow> b')"
  using recognize_fed[of _ f d]
  by (cases "recognize f d")
     (auto simp: feed_def stopped_def monitor_append outer_handler_monitor
           split: sum.splits exn.splits option.splits)

lemma iteration_monitor:
  "\<exists>b'. monitor emit_step b (fst (iteration cfg cb f)) = Some b' \<and>
          (snd (iteration cfg cb f) \<noteq> Skip \<and> (\<forall>out. snd (iteration cfg cb f) \<noteq> Stop out) \<longrightarrow> b')"
  by (auto simp: iteration_def stopped_def monitor_append outer_handler_monitor
           split: sum.splits exn.splits option.splits intro!: feed_monitor)

lemma transcribe_loop_monitor:
  "monitor emit_step b (fst (transcribe_loop cfg cb fs)) \<noteq> None"
proof (induction fs arbitrary: b)
  case Nil
  show ?case by simp
next
  case (Cons f fs)
  obtain tr st where it: "iteration cfg cb f = (tr, st)" by (cases "iteration cfg cb f")
  from iteration_monitor[of b cfg cb f] it obtain b' where
    m: "monitor emit_step b tr = Some b'" and
    fed: "st \<noteq> Skip \<and> (\<forall>out. st \<noteq> Stop out) \<longrightarrow> b'" by auto
  show ?case
  proof (cases st)
    case Skip
    with it m Cons.IH[of b'] show ?thesis by (simp add: prepend_def monitor_append)
  next
    case (Stop out)
    with it m show ?thesis by simp
  next
    case (Emit ev)
    with fed have b': "b'" by simp
    from Emit it m b' Cons.IH[of False] show ?thesis
      by (cases "reaction f")
         (auto simp: prepend_def monitor_append outer_handler_monitor split: exn.splits)
  qed
qed

lemma run_loop_monitor:
  "monitor emit_step b (fst (run_loop cfg cb fs)) \<noteq> None"
proof (induction fs arbitrary: b)
  case Nil
  show ?case by simp
next
  case (Cons f fs)
  obtain tr st where it: "iteration cfg cb f = (tr, st)" by (cases "iteration cfg cb f")
  from iteration_monitor[of b cfg cb f] it obtain b' where
    m: "monitor emit_step b tr = Some b'" and
    fed: "st \<noteq> Skip \<and> (\<forall>out. st \<noteq> Stop out) \<longrightarrow> b'" by auto
  show ?case
  proof (cases st)
    case Skip
    with it m Cons.IH[of b'] show ?thesis by (simp add: prepend_def monitor_append)
  next
    case (Stop out)
    with it m show ?thesis by simp
  next
    case (Emit ev)
    with fed have b': "b'" by simp
    from Emit it m b' Cons.IH[of False] show ?thesis
      by (cases "reaction f") (auto simp: prepend_def monitor_append)
  qed
qed

text \<open>Every event either loop yields is the event of one pass over a frame of the script.\<close>

lemma transcribe_loop_events:
  "ev \<in> set (events_of (fst (transcribe_loop cfg cb fs))) \<Longrightarrow>
     \<exists>f \<in> set fs. snd (iteration cfg cb f) = Emit ev"
proof (induction fs)
  case Nil
  then show ?case by simp
next
  case (Cons f fs)
  obtain tr st where it: "iteration cfg cb f = (tr, st)" by (cases "iteration cfg cb f")
  from iteration_events[of cfg cb f] it have ne: "events_of tr = []" by simp
  show ?case
  proof (cases st)
    case Skip
    with it ne Cons show ?thesis by (auto simp: prepend_def events_of_append)
  next
    case (Stop out)
    with it ne Cons.prems show ?thesis by simp
  next
    case (Emit ev')
    with it ne Cons show ?thesis
      by (cases "reaction f")
         (auto simp: prepend_def events_of_append outer_handler_events split: exn.splits)
  qed
qed

lemma run_loop_events:
  "ev \<in> set (events_of (fst (run_loop cfg cb fs))) \<Longrightarrow>
     \<exists>f \<in> set fs. snd (iteration cfg cb f) = Emit ev"
proof (induction fs)
  case Nil
  then show ?case by simp
next
  case (Cons f fs)
  obtain tr st where it: "iteration cfg cb f = (tr, st)" by (cases "iteration cfg cb f")
  from iteration_events[of cfg cb f] it have ne: "events_of tr = []" by simp
  show ?case
  proof (cases st)
    case Skip
    with it ne Cons show ?thesis by (auto simp: prepend_def events_of_append)
  next
    case (Stop out)
    with it ne Cons.prems show ?thesis by simp
  next
    case (Emit ev')
    with it ne Cons show ?thesis
      by (cases "reaction f") (auto simp: prepend_def events_of_append)
  qed
qed

lemma recognize_sink:
  "monitor sink_step (Delivered d) (fst (recognize f d)) = Some NoFrame"
  by (auto simp: recognize_def split: sum.splits bool.splits if_splits)

lemma outer_handler_sink:
  "settled st \<Longrightarrow> monitor sink_step st (fst (outer_handler e)) = Some st"
  by (cases e; cases st) auto

lemma feed_sink:
  "monitor sink_step st tr0 = Some (Delivered d) \<Longrightarrow>
     monitor sink_step st (fst (feed f d tr0)) = Some NoFrame"
  using recognize_sink[of d f]
  by (cases "recognize f d")
     (auto simp: feed_def stopped_def monitor_append outer_handler_sink
           split: sum.splits exn.splits option.splits)

lemma iteration_sink:
  "settled st \<Longrightarrow>
     \<exists>st'. monitor sink_step st (fst (iteration cfg True f)) = Some st' \<and> settled st'"
  by (cases st)
     (auto simp: iteration_def stopped_def monitor_append outer_handler_sink feed_sink
           split: sum.splits exn.splits option.splits)

lemma transcribe_loop_sink:
  "settled st \<Longrightarrow>
     \<exists>st'. monitor sink_step st (fst (transcribe_loop cfg True fs)) = Some st' \<and> settled st'"
proof (induction fs arbitrary: st)
  case Nil
  then show ?case by simp
next
  case (Cons f fs)
  obtain tr stp where it: "iteration cfg True f = (tr, stp)" by (cases "iteration cfg True f")
  from iteration_sink[OF Cons.prems, of cfg f] it obtain st1 where
    m: "monitor sink_step st tr = Some st1" and s1: "settled st1" by auto
  show ?case
  proof (cases stp)
    case Skip
    with it m Cons.IH[OF s1] show ?thesis by (simp add: prepend_def monitor_append)
  next
    case (Stop out)
    with it m s1 show ?thesis by simp
  next
    case (Emit ev)
    from Emit it m s1 Cons.IH[OF s1] show ?thesis
      by (cases "reaction f"; cases st1)
         (auto simp: prepend_def monitor_append outer_handler_sink split: exn.splits)
  qed
qed

lemma quiet_emit: "list_all quiet tr \<Longrightarrow> monitor emit_step b tr = Some b"
  by (induction tr) (auto elim: quiet.elims)

lemma quiet_sink: "settled st \<Longrightarrow> list_all quiet tr \<Longrightarrow> monitor sink_step st tr = Some st"
  by (induction tr) (auto elim!: quiet.elims settled.elims)

lemma quiet_events: "list_all quiet tr \<Longrightarrow> events_of tr = []"
  by (induction tr) (auto elim: quiet.elims)

lemma load_model_quiet: "list_all quiet (fst (load_model cfg env s))"
  by (auto simp: load_model_def split: sum.splits option.splits)

lemma setup_audio_stream_quiet: "list_all quiet (fst (setup_audio_stream cfg env s))"
  by (auto simp: setup_audio_stream_def split: sum.splits)

lemma word_timing_quiet: "word_timing cfg env r = (tr, e) \<Longrightarrow> list_all quiet tr"
  by (auto simp: word_timing_def split: sum.splits option.splits exn.splits bool.splits if_splits)

lemma start_recognition_quiet: "list_all quiet (fst (start_recognition cfg env s))"
  by (auto simp: start_recognition_def split: sum.splits option.splits prod.splits
           dest: word_timing_quiet)

lemma cleanup_p_quiet: "list_all quiet tr \<Longrightarrow> list_all quiet (fst (cleanup_p rel tr s))"
  by (auto simp: cleanup_p_def split: option.splits)

lemma cleanup_quiet: "list_all quiet (fst (cleanup rel s))"
  by (auto simp: cleanup_def cleanup_p_quiet split: option.splits)

lemma run_body_shape:
  "\<exists>pre. list_all quiet pre \<and>
     (fst (run_body cfg env cb fs s) = pre \<or>
      fst (run_body cfg env cb fs s) = pre @ fst (run_loop cfg cb fs))"
proof -
  obtain tr1 s1 r1 where l: "load_model cfg env s = (tr1, s1, r1)" by (cases "load_model cfg env s")
  obtain tr2 s2 r2 where a: "setup_audio_stream cfg env s1 = (tr2, s2, r2)"
    by (cases "setup_audio_stream cfg env s1")
  obtain tr3 s3 r3 where r: "start_recognition cfg env s2 = (tr3, s3, r3)"
    by (cases "start_recognition cfg env s2")
  have q1: "list_all quiet tr1" using load_model_quiet[of cfg env s] l by simp
  have q2: "list_all quiet tr2" using setup_audio_stream_quiet[of cfg env s1] a by simp
  have q3: "list_all quiet tr3" using start_recognition_quiet[of cfg env s2] r by simp
  show ?thesis
  proof (cases "r1 = None \<and> r2 = None \<and> r3 = None \<and> stream s3 \<noteq> None \<and> recognizer s3 \<noteq> None")
    case True
    with l a r have
      "fst (run_body cfg env cb fs s) =
         (tr1 @ tr2 @ tr3 @ [Log ''[LiveTranscriber] Starting real-time transcription''])
           @ fst (run_loop cfg cb fs)"
      by (auto simp: run_body_def run_stream_def prepend_def)
    moreover have
      "list_all quiet (tr1 @ tr2 @ tr3 @ [Log ''[LiveTranscriber] Starting real-time transcription''])"
      using q1 q2 q3 by simp
    ultimately show ?thesis by blast
  next
    case False
    with l a r q1 q2 q3 have "list_all quiet (fst (run_body cfg env cb fs s))"
      by (auto simp: run_body_def run_stream_def prepend_def split: option.splits)
    then show ?thesis by blast
  qed
qed

lemma run_shape:
  "\<exists>pre post. list_all quiet pre \<and> list_all quiet post \<and>
     (fst (run cfg env rel cb fs s) = pre @ post \<or>
      fst (run cfg env rel cb fs s) = pre @ fst (run_loop cfg cb fs) @ post)"
proof -
  obtain tr s' out where b: "run_body cfg env cb fs s = (tr, s', out)"
    by (cases "run_body cfg env cb fs s")
  from run_body_shape[of cfg env cb fs s] b obtain pre where
    pre: "list_all quiet pre" "tr = pre \<or> tr = pre @ fst (run_loop cfg cb fs)" by auto
  have "fst (run cfg env rel cb fs s) = tr @ [] \<or>
        fst (run cfg env rel cb fs s) = tr @ fst (cleanup rel s')"
    using b by (auto simp: run_def finally_cleanup_def split: prod.splits option.splits)
  then obtain post where
    post: "list_all quiet post" "fst (run cfg env rel cb fs s) = tr @ post"
  proof
    assume "fst (run cfg env rel cb fs s) = tr @ []"
    then show ?thesis using that[of "[]"] by simp
  next
    assume "fst (run cfg env rel cb fs s) = tr @ fst (cleanup rel s')"
    then show ?thesis using that[of "fst (cleanup rel s')"] cleanup_quiet[of rel s'] by simp
  qed
  from pre post show ?thesis by (metis append.assoc)
qed

lemma run_loop_sink:
  "settled st \<Longrightarrow>
     \<exists>st'. monitor sink_step st (fst (run_loop cfg True fs)) = Some st' \<and> settled st'"
proof (induction fs arbitrary: st)
  case Nil
  then show ?case by simp
next
  case (Cons f fs)
  obtain tr stp where it: "iteration cfg True f = (tr, stp)" by (cases "iteration cfg True f")
  from iteration_sink[OF Cons.prems, of cfg f] it obtain st1 where
    m: "monitor sink_step st tr = Some st1" and s1: "settled st1" by auto
  show ?case
  proof (cases stp)
    case Skip
    with it m Cons.IH[OF s1] show ?thesis by (simp add: prepend_def monitor_append)
  next
    case (Stop out)
    with it m s1 show ?thesis by simp
  next
    case (Emit ev)
    from Emit it m s1 Cons.IH[OF s1] show ?thesis
      by (cases "reaction f"; cases st1) (auto simp: prepend_def monitor_append)
  qed
qed

lemma transcribe_stream_trace:
  "fst (transcribe_stream cfg s cb fs) = [] \<or>
   fst (transcribe_stream cfg s cb fs) =
     Log ''[LiveTranscriber] Starting real-time transcription'' # fst (transcribe_loop cfg cb fs)"
  by (simp add: transcribe_stream_def prepend_def)

lemma recognize_kind:
  assumes "snd (recognize f d) = Inr (Some ev)"
  shows "if accept_waveform f = Inr True
         then ev_type ev = ''final'' \<and>
              (\<exists>res. result_json f = Inr res \<and> ev_raw_result ev = res \<and>
                     get_stripped res ''text'' = Inr (ev_text ev))
         else accept_waveform f = Inr False \<and> ev_type ev = ''partial'' \<and>
              (\<exists>partial. partial_json f = Inr partial \<and> ev_raw_result ev = partial \<and>
                     get_stripped partial ''partial'' = Inr (ev_text ev))"
  using assms by (auto simp: recognize_def split: sum.splits bool.splits if_splits)

lemma prepend_prepend: "prepend tr (prepend tr' r) = prepend (tr @ tr') r"
  by (simp add: prepend_def)

lemma outer_handler_not_Running: "snd (outer_handler e) \<noteq> Running"
  by (cases e) auto

lemma feed_not_Running: "snd (feed f d tr0) \<noteq> Stop Running"
  by (cases "recognize f d")
     (auto simp: feed_def stopped_def outer_handler_not_Running
           split: sum.splits exn.splits option.splits)

lemma iteration_not_Running: "snd (iteration cfg cb f) \<noteq> Stop Running"
  by (auto simp: iteration_def stopped_def outer_handler_not_Running feed_not_Running
           split: sum.splits exn.splits option.splits)

lemma transcribe_loop_append:
  "snd (transcribe_loop cfg cb pre) = Running \<Longrightarrow>
     transcribe_loop cfg cb (pre @ fs) =
       prepend (fst (transcribe_loop cfg cb pre)) (transcribe_loop cfg cb fs)"
proof (induction pre)
  case Nil
  show ?case by (simp add: prepend_def)
next
  case (Cons f pre)
  obtain tr st where it: "iteration cfg cb f = (tr, st)" by (cases "iteration cfg cb f")
  show ?case
  proof (cases st)
    case Skip
    with it Cons show ?thesis by (simp add: prepend_def)
  next
    case (Stop out)
    with it Cons.prems iteration_not_Running[of cfg cb f] show ?thesis by simp
  next
    case (Emit ev)
    with it Cons show ?thesis
      by (cases "reaction f")
         (auto simp: prepend_def split: exn.splits)
  qed
qed

lemma feed_trace: "\<exists>tr. fst (feed f d tr0) = tr0 @ tr"
  by (cases "recognize f d")
     (auto simp: feed_def stopped_def split: sum.splits exn.splits option.splits)

lemma iteration_reads:
  "frame_per_buffer cfg = Inr n \<Longrightarrow>
     \<exists>tr. fst (iteration cfg cb f) = StreamRead (stream_read f) # tr"
proof (cases "stream_read f")
  case (Inl e)
  assume "frame_per_buffer cfg = Inr n"
  with Inl show ?thesis by (simp add: iteration_def stopped_def)
next
  case (Inr d)
  assume n: "frame_per_buffer cfg = Inr n"
  have "\<exists>tr. fst (feed f d (StreamRead (Inr d) # tr0)) = StreamRead (Inr d) # tr" for tr0
    using feed_trace[of f d "StreamRead (Inr d) # tr0"] by auto
  with Inr n show ?thesis
    by (auto simp: iteration_def stopped_def split: option.splits exn.splits)
qed

lemma transcribe_loop_reads:
  "frame_per_buffer cfg = Inr n \<Longrightarrow>
     \<exists>tr. fst (transcribe_loop cfg cb (f # fs)) = StreamRead (stream_read f) # tr"
proof -
  assume "frame_per_buffer cfg = Inr n"
  from iteration_reads[OF this, of cb f] obtain tr where
    tr: "fst (iteration cfg cb f) = StreamRead (stream_read f) # tr" by blast
  obtain tr0 st where it: "iteration cfg cb f = (tr0, st)" by (cases "iteration cfg cb f")
  with tr show ?thesis
    by (cases st; cases "reaction f")
       (auto simp: prepend_def split: exn.splits)
qed

lemma feed_recognizer_error:
  "snd (recognize f d) = Inl (Exception m) \<Longrightarrow> snd (feed f d tr0) = Skip"
  by (cases "recognize f d") (auto simp: feed_def)

lemma ordinary_guarded: "ordinary r \<Longrightarrow> guarded r = None"
  by (cases r rule: guarded.cases) auto

lemma cleanup_ordinary:
  assumes "ordinary_release rel"
  shows "cleanup rel s =
           (release_calls s @ [Log ''[LiveTranscriber] Audio resources cleaned up''],
            s\<lparr>stream := None, p := None\<rparr>, None)"
  using assms
  by (cases "stream s"; cases "p s")
     (auto simp: cleanup_def cleanup_p_def ordinary_release_def release_calls_def ordinary_guarded)

lemma cleanups_after_first:
  assumes "list_all ordinary_release rels" and "stream s = None" and "p s = None"
  shows "cleanups rels s =
           (replicate (length rels) (Log ''[LiveTranscriber] Audio resources cleaned up''), s, None)"
  using assms
proof (induction rels)
  case Nil
  show ?case by simp
next
  case (Cons rel rels)
  then have "cleanup rel s = ([Log ''[LiveTranscriber] Audio resources cleaned up''], s, None)"
    by (simp add: cleanup_ordinary release_calls_def)
  with Cons show ?case by simp
qed

lemma run_body_cases:
  "(\<exists>tr s' e. \<forall>cb fs. run_body cfg env cb fs s = (tr, s', Raised e)) \<or>
   (\<exists>tr s'. list_all quiet tr \<and>
      (\<forall>cb fs. run_body cfg env cb fs s =
         (tr @ fst (run_loop cfg cb fs), s', snd (run_loop cfg cb fs))))"
proof -
  obtain tr1 s1 r1 where l: "load_model cfg env s = (tr1, s1, r1)" by (cases "load_model cfg env s")
  obtain tr2 s2 r2 where a: "setup_audio_stream cfg env s1 = (tr2, s2, r2)"
    by (cases "setup_audio_stream cfg env s1")
  obtain tr3 s3 r3 where r: "start_recognition cfg env s2 = (tr3, s3, r3)"
    by (cases "start_recognition cfg env s2")
  have q1: "list_all quiet tr1" using load_model_quiet[of cfg env s] l by simp
  have q2: "list_all quiet tr2" using setup_audio_stream_quiet[of cfg env s1] a by simp
  have q3: "list_all quiet tr3" using start_recognition_quiet[of cfg env s2] r by simp
  show ?thesis
  proof (cases "r1 = None \<and> r2 = None \<and> r3 = None \<and> stream s3 \<noteq> None \<and> recognizer s3 \<noteq> None")
    case True
    with l a r have
      "\<forall>cb fs. run_body cfg env cb fs s =
         ((tr1 @ tr2 @ tr3 @ [Log ''[LiveTranscriber] Starting real-time transcription''])
           @ fst (run_loop cfg cb fs), s3, snd (run_loop cfg cb fs))"
      by (auto simp: run_body_def run_stream_def prepend_def)
    moreover have
      "list_all quiet (tr1 @ tr2 @ tr3 @ [Log ''[LiveTranscriber] Starting real-time transcription''])"
      using q1 q2 q3 by simp
    ultimately show ?thesis by blast
  next
    case False
    with l a r have "\<exists>tr s' e. \<forall>cb fs. run_body cfg env cb fs s = (tr, s', Raised e)"
      by (auto simp: run_body_def run_stream_def prepend_def split: option.splits)
    then show ?thesis by blast
  qed
qed

lemma finally_cleanup_events:
  "events_of (fst (finally_cleanup rel (tr, s, out))) = events_of tr"
  using cleanup_quiet[of rel s]
  by (cases "cleanup rel s")
     (auto simp: finally_cleanup_def events_of_append quiet_events split: option.splits)

lemma run_determined:
  assumes "events_of (fst (run_loop cfg cb fs)) = events_of (fst (run_loop cfg cb' fs'))"
    and "snd (run_loop cfg cb fs) = snd (run_loop cfg cb' fs')"
  shows "events_of (fst (run cfg env rel cb fs s)) = events_of (fst (run cfg env rel cb' fs' s)) \<and>
         snd (run cfg env rel cb fs s) = snd (run cfg env rel cb' fs' s)"
proof -
  from run_body_cases[of cfg env s] show ?thesis
  proof
    assume "\<exists>tr s' e. \<forall>cb fs. run_body cfg env cb fs s = (tr, s', Raised e)"
    then show ?thesis by (auto simp: run_def)
  next
    assume "\<exists>tr s'. list_all quiet tr \<and>
      (\<forall>cb fs. run_body cfg env cb fs s =
         (tr @ fst (run_loop cfg cb fs), s', snd (run_loop cfg cb fs)))"
    then obtain tr s' where q: "list_all quiet tr" and
      b: "\<And>cb fs. run_body cfg env cb fs s =
         (tr @ fst (run_loop cfg cb fs), s', snd (run_loop cfg cb fs))" by blast
    show ?thesis
      using assms q
      by (auto simp: run_def b finally_cleanup_events events_of_append quiet_events
                     finally_cleanup_def split: prod.splits option.splits)
  qed
qed

lemma feed_snd: "tr0 \<noteq> [] \<Longrightarrow> snd (feed f d tr0) = snd (feed f d [])"
  by (cases "recognize f d")
     (auto simp: feed_def stopped_def split: sum.splits exn.splits option.splits)

lemma recognize_silence: "recognize (silence f) d = recognize f d"
  by (auto simp: recognize_def silence_def split: sum.splits bool.splits)

lemma feed_silence: "feed (silence f) d tr0 = feed f d tr0"
  by (simp add: feed_def recognize_silence)

lemma iteration_silence:
  assumes "ordinary (callback_raises f)"
  shows "snd (iteration cfg True f) = snd (iteration cfg True (silence f)) \<and>
         snd (iteration cfg True f) = snd (iteration cfg False f)"
proof -
  from assms have "callback_raises f = None \<or> (\<exists>m. callback_raises f = Some (Exception m))"
    by (cases "callback_raises f") (auto elim: is_Exception.elims)
  moreover have "stream_read (silence f) = stream_read f" "callback_raises (silence f) = None"
    by (simp_all add: silence_def)
  ultimately show ?thesis
    by (auto simp: iteration_def feed_silence feed_snd stopped_def split: sum.splits)
qed

lemma run_loop_stepwise:
  assumes "list_all2 (\<lambda>f g. snd (iteration cfg cb f) = snd (iteration cfg cb' g) \<and>
                              reaction f = reaction g) fs gs"
  shows "events_of (fst (run_loop cfg cb fs)) = events_of (fst (run_loop cfg cb' gs)) \<and>
         snd (run_loop cfg cb fs) = snd (run_loop cfg cb' gs)"
  using assms
proof (induction fs gs rule: list_all2_induct)
  case Nil
  show ?case by simp
next
  case (Cons f fs g gs)
  obtain tr st where f: "iteration cfg cb f = (tr, st)" by (cases "iteration cfg cb f")
  obtain tr' st' where g: "iteration cfg cb' g = (tr', st')" by (cases "iteration cfg cb' g")
  from iteration_events[of cfg cb f] f have ef: "events_of tr = []" by simp
  from iteration_events[of cfg cb' g] g have eg: "events_of tr' = []" by simp
  from Cons.hyps f g have st: "st' = st" and re: "reaction g = reaction f" by simp_all
  from Cons.IH f g ef eg st re show ?case
    by (cases st; cases "reaction f") (auto simp: prepend_def events_of_append)
qed

lemma run_loop_silence:
  assumes "list_all (\<lambda>f. ordinary (callback_raises f)) fs"
  shows "events_of (fst (run_loop cfg True fs)) =
           events_of (fst (run_loop cfg True (map silence fs))) \<and>
         snd (run_loop cfg True fs) = snd (run_loop cfg True (map silence fs)) \<and>
         events_of (fst (run_loop cfg True fs)) = events_of (fst (run_loop cfg False fs)) \<and>
         snd (run_loop cfg True fs) = snd (run_loop cfg False fs)"
proof -
  have "list_all2 (\<lambda>f g. snd (iteration cfg True f) = snd (iteration cfg True g) \<and>
                              reaction f = reaction g) fs (map silence fs)"
    using assms
  proof (induction fs)
    case Nil
    show ?case by simp
  next
    case (Cons f fs)
    from Cons.prems have o: "ordinary (callback_raises f)" by simp
    have "snd (iteration cfg True f) = snd (iteration cfg True (silence f))"
      by (rule conjunct1[OF iteration_silence[OF o]])
    moreover have "reaction f = reaction (silence f)" by (simp add: silence_def)
    moreover have "list_all2 (\<lambda>f g. snd (iteration cfg True f) = snd (iteration cfg True g) \<and>
                              reaction f = reaction g) fs (map silence fs)"
      using Cons by simp
    ultimately show ?case by simp
  qed
  moreover have "list_all2 (\<lambda>f g. snd (iteration cfg True f) = snd (iteration cfg False g) \<and>
                              reaction f = reaction g) fs fs"
    using assms
  proof (induction fs)
    case Nil
    show ?case by simp
  next
    case (Cons f fs)
    from Cons.prems have o: "ordinary (callback_raises f)" by simp
    have "snd (iteration cfg True f) = snd (iteration cfg False f)"
      by (rule conjunct2[OF iteration_silence[OF o]])
    moreover have "list_all2 (\<lambda>f g. snd (iteration cfg True f) = snd (iteration cfg False g) \<and>
                              reaction f = reaction g) fs fs"
      using Cons by simp
    ultimately show ?case by simp
  qed
  ultimately show ?thesis
    using run_loop_stepwise[of cfg True True fs "map silence fs"]
          run_loop_stepwise[of cfg True False fs fs] by blast
qed

text \<open>
  For a consumer that never throws, the loop as \<^verbatim>\<open>run\<close> drives it and the loop of
  \<^verbatim>\<open>transcribe_stream\<close> driven directly are the same.
\<close>

lemma run_loop_transcribe_loop:
  "list_all (\<lambda>f. never_throws (reaction f)) fs \<Longrightarrow>
     run_loop cfg cb fs = transcribe_loop cfg cb fs"
proof (induction fs)
  case Nil
  show ?case by simp
next
  case (Cons f fs)
  obtain tr st where it: "iteration cfg cb f = (tr, st)" by (cases "iteration cfg cb f")
  with Cons show ?case
    by (cases st; cases "reaction f") auto
qed

text \<open>
  What the guards of \<^verbatim>\<open>cleanup\<close> let through: a \<^verbatim>\<open>KeyboardInterrupt\<close> that arrives during
  \<^verbatim>\<open>stop_stream()\<close> is no \<^verbatim>\<open>Exception\<close>, leaves \<^verbatim>\<open>cleanup\<close> at once and the fields stay
  as they were.
\<close>

lemma cleanup_interrupted:
  "stream s = Some h \<Longrightarrow> stop_stream_raises rel = Some KeyboardInterrupt \<Longrightarrow>
     cleanup rel s = ([StopStream h], s, Some KeyboardInterrupt)"
  by (simp add: cleanup_def)

text \<open>
  Likewise in the loop: a \<^verbatim>\<open>KeyboardInterrupt\<close> that arrives during the callback or the
  recognizer calls is caught by the handler around the loop, and the generator returns.
\<close>

lemma iteration_interrupted:
  "frame_per_buffer cfg = Inr n \<Longrightarrow> stream_read f = Inr d \<Longrightarrow>
   callback_raises f = Some KeyboardInterrupt \<Longrightarrow>
     iteration cfg True f =
       ([StreamRead (Inr d), Callback d,
         Log ''[LiveTranscriber] Transcription stopped by user''], Stop Returned)"
  by (simp add: iteration_def stopped_def)

lemma recognize_starts: "\<exists>tr. fst (recognize f d) = AcceptWaveform d # tr"
  by (auto simp: recognize_def split: sum.splits bool.splits)

lemma feed_shape:
  "\<exists>post. fst (feed f d tr0) = tr0 @ fst (recognize f d) @ post \<and>
          (\<forall>ev. snd (recognize f d) = Inr (Some ev) \<longrightarrow> post = [] \<and> snd (feed f d tr0) = Emit ev) \<and>
          (\<forall>m. snd (recognize f d) = Inl (Exception m) \<longrightarrow>
                post = [Log ''[LiveTranscriber] Vosk processing error''])"
  by (cases "recognize f d")
     (auto simp: feed_def stopped_def split: sum.splits exn.splits option.splits)

lemma iteration_is_feed:
  assumes "frame_per_buffer cfg = Inr n" and "stream_read f = Inr d"
    and "cb \<longrightarrow> (\<forall>e. callback_raises f = Some e \<longrightarrow> is_Exception e)"
  shows "\<exists>pre. iteration cfg cb f = feed f d (StreamRead (Inr d) # pre)"
proof (cases cb)
  case False
  with assms have "iteration cfg cb f = feed f d (StreamRead (Inr d) # [])"
    by (simp add: iteration_def)
  then show ?thesis by blast
next
  case True
  with assms(3) have "callback_raises f = None \<or> (\<exists>m'. callback_raises f = Some (Exception m'))"
    by (cases "callback_raises f") (auto elim: is_Exception.elims)
  then show ?thesis
  proof
    assume "callback_raises f = None"
    with True assms have "iteration cfg cb f = feed f d (StreamRead (Inr d) # [Callback d])"
      by (simp add: iteration_def)
    then show ?thesis by blast
  next
    assume "\<exists>m'. callback_raises f = Some (Exception m')"
    with True assms have "iteration cfg cb f =
        feed f d (StreamRead (Inr d) # [Callback d, Log ''[LiveTranscriber] audio_callback error''])"
      by (auto simp: iteration_def)
    then show ?thesis by blast
  qed
qed

lemma iteration_feeds:
  assumes "frame_per_buffer cfg = Inr n" and "stream_read f = Inr d"
    and "cb \<longrightarrow> (\<forall>e. callback_raises f = Some e \<longrightarrow> is_Exception e)"
  shows "\<exists>pre post. fst (iteration cfg cb f) = StreamRead (Inr d) # pre @ fst (recognize f d) @ post \<and>
          (\<forall>ev. snd (recognize f d) = Inr (Some ev) \<longrightarrow>
                post = [] \<and> snd (iteration cfg cb f) = Emit ev) \<and>
          (\<forall>m. snd (recognize f d) = Inl (Exception m) \<longrightarrow>
                post = [Log ''[LiveTranscriber] Vosk processing error''])"
proof -
  from iteration_is_feed[OF assms] obtain pre where
    it: "iteration cfg cb f = feed f d (StreamRead (Inr d) # pre)" by blast
  from feed_shape[of f d "StreamRead (Inr d) # pre"] obtain post where
    a: "fst (feed f d (StreamRead (Inr d) # pre)) =
          (StreamRead (Inr d) # pre) @ fst (recognize f d) @ post" and
    b: "\<forall>ev. snd (recognize f d) = Inr (Some ev) \<longrightarrow>
          post = [] \<and> snd (feed f d (StreamRead (Inr d) # pre)) = Emit ev" and
    c: "\<forall>m. snd (recognize f d) = Inl (Exception m) \<longrightarrow>
          post = [Log ''[LiveTranscriber] Vosk processing error'']" by blast
  from a it have "fst (iteration cfg cb f) = StreamRead (Inr d) # pre @ fst (recognize f d) @ post"
    by simp
  with b c it show ?thesis by metis
qed

lemma transcribe_loop_Emit:
  "snd (iteration cfg cb f) = Emit ev \<Longrightarrow>
     \<exists>tl. fst (transcribe_loop cfg cb (f # fs)) = fst (iteration cfg cb f) @ Yield ev # tl"
  by (cases "iteration cfg cb f"; cases "reaction f")
     (auto simp: prepend_def split: exn.splits)

lemma transcribe_loop_pass:
  "\<exists>tl. fst (transcribe_loop cfg cb (f # fs)) = fst (iteration cfg cb f) @ tl"
proof -
  obtain tr st where it: "iteration cfg cb f = (tr, st)" by (cases "iteration cfg cb f")
  then show ?thesis
    by (cases st; cases "reaction f") (auto simp: prepend_def split: exn.splits)
qed

lemma transcribe_loop_feeds:
  assumes "frame_per_buffer cfg = Inr n" and "stream_read g = Inr d"
    and "cb \<longrightarrow> (\<forall>e. callback_raises g = Some e \<longrightarrow> is_Exception e)"
  shows "\<exists>pre post. fst (transcribe_loop cfg cb (g # gs)) =
            StreamRead (Inr d) # pre @ fst (recognize g d) @ post \<and>
          (\<forall>ev. snd (recognize g d) = Inr (Some ev) \<longrightarrow> (\<exists>tl. post = Yield ev # tl))"
proof -
  from iteration_feeds[OF assms] obtain pre post where
    it: "fst (iteration cfg cb g) = StreamRead (Inr d) # pre @ fst (recognize g d) @ post" and
    em: "\<And>ev. snd (recognize g d) = Inr (Some ev) \<Longrightarrow>
            post = [] \<and> snd (iteration cfg cb g) = Emit ev" by blast
  show ?thesis
  proof (cases "\<exists>ev. snd (recognize g d) = Inr (Some ev)")
    case True
    then obtain ev where ev: "snd (recognize g d) = Inr (Some ev)" by blast
    from em[OF ev] have p: "post = []" and e: "snd (iteration cfg cb g) = Emit ev" by simp_all
    from transcribe_loop_Emit[OF e, of gs] obtain tl where
      "fst (transcribe_loop cfg cb (g # gs)) = fst (iteration cfg cb g) @ Yield ev # tl" by blast
    with it p ev show ?thesis by auto
  next
    case False
    from transcribe_loop_pass[of cfg cb g gs] obtain tl where
      "fst (transcribe_loop cfg cb (g # gs)) = fst (iteration cfg cb g) @ tl" by blast
    with it False show ?thesis by auto
  qed
qed

lemma cleanup_trace_prefix:
  "\<exists>rest. release_calls s @ [Log ''[LiveTranscriber] Audio resources cleaned up''] =
            fst (cleanup rel s) @ rest"
  by (cases "stream s"; cases "p s"; cases "guarded (stop_stream_raises rel)";
      cases "guarded (close_raises rel)"; cases "guarded (terminate_raises rel)")
     (auto simp: cleanup_def cleanup_p_def release_calls_def)

lemma cleanup_keeps_model:
  "model (fst (snd (cleanup rel s))) = model s \<and>
   recognizer (fst (snd (cleanup rel s))) = recognizer s"
  by (auto simp: cleanup_def cleanup_p_def split: option.splits)

section \<open>The claims\<close>

text \<open>
  Claim C1. In the trace of a streaming run, driven through \<^verbatim>\<open>transcribe_stream\<close> or
  through \<^verbatim>\<open>run\<close>, every yielded event comes after a call of \<^verbatim>\<open>AcceptWaveform\<close>
  with no other event in between, so a frame fed to the recognizer gives at most one
  event; and the text of every yielded event is not empty and stays not empty when it is
  stripped again. This holds for every script of the outside world and every consumer.
\<close>

theorem events_one_per_frame_nonempty:
  "one_event_per_frame (fst (transcribe_stream cfg s cb fs)) \<and>
   one_event_per_frame (fst (run cfg env rel cb fs s0)) \<and>
   (\<forall>ev \<in> set (events_of (fst (transcribe_stream cfg s cb fs))) \<union>
            set (events_of (fst (run cfg env rel cb fs s0))).
      ev_text ev \<noteq> [] \<and> strip (ev_text ev) \<noteq> [])"
proof -
  have direct: "one_event_per_frame (fst (transcribe_stream cfg s cb fs))"
    using transcribe_stream_trace[of cfg s cb fs] transcribe_loop_monitor[of False cfg cb fs]
    by (auto simp: one_event_per_frame_def)
  from run_shape[of cfg env rel cb fs s0] obtain pre post where
    q: "list_all quiet pre" "list_all quiet post" and
    sh: "fst (run cfg env rel cb fs s0) = pre @ post \<or>
         fst (run cfg env rel cb fs s0) = pre @ fst (run_loop cfg cb fs) @ post" by blast
  from run_loop_monitor[of False cfg cb fs] obtain b where
    "monitor emit_step False (fst (run_loop cfg cb fs)) = Some b" by auto
  with q sh have via_run: "one_event_per_frame (fst (run cfg env rel cb fs s0))"
    by (auto simp: one_event_per_frame_def monitor_append quiet_emit)
  have "ev_text ev \<noteq> [] \<and> strip (ev_text ev) \<noteq> []"
    if "ev \<in> set (events_of (fst (transcribe_stream cfg s cb fs))) \<union>
               set (events_of (fst (run cfg env rel cb fs s0)))" for ev
  proof -
  from that have "\<exists>f \<in> set fs. snd (iteration cfg cb f) = Emit ev"
  proof
    assume "ev \<in> set (events_of (fst (transcribe_stream cfg s cb fs)))"
    with transcribe_stream_trace[of cfg s cb fs] show ?thesis
      by (auto dest: transcribe_loop_events)
  next
    assume r: "ev \<in> set (events_of (fst (run cfg env rel cb fs s0)))"
    from run_shape[of cfg env rel cb fs s0] obtain pre post where
      q: "list_all quiet pre" "list_all quiet post" and
      sh: "fst (run cfg env rel cb fs s0) = pre @ post \<or>
           fst (run cfg env rel cb fs s0) = pre @ fst (run_loop cfg cb fs) @ post" by blast
    with r have "ev \<in> set (events_of (fst (run_loop cfg cb fs)))"
      by (auto simp: events_of_append quiet_events)
    then show ?thesis by (rule run_loop_events)
  qed
  then obtain f tr where "iteration cfg cb f = (tr, Emit ev)"
    by (metis prod.collapse)
  then obtain d where "snd (recognize f d) = Inr (Some ev)" by (auto dest: iteration_Emit)
  then have "ev_text ev \<noteq> [] \<and> strip (ev_text ev) = ev_text ev"
    using recognize_text[of f d "fst (recognize f d)" ev] by (metis prod.collapse)
  then show ?thesis by simp
  qed
  with direct via_run show ?thesis by blast
qed

theorem events_one_per_frame_nonempty_witness:
  "events_of (fst (run cfg_ok env_ok rel_ok True [frame_final, frame_bad, frame_partial] init)) =
     [\<lparr>ev_type = ''final'', ev_text = ''hello world'', ev_timestamp = ''t1'',
        ev_raw_result = JObj [(''text'', JStr '' hello world '')]\<rparr>,
      \<lparr>ev_type = ''partial'', ev_text = ''hel'', ev_timestamp = ''t2'',
        ev_raw_result = JObj [(''partial'', JStr ''hel'')]\<rparr>] \<and>
   one_event_per_frame
     (fst (run cfg_ok env_ok rel_ok True [frame_final, frame_bad, frame_partial] init)) \<and>
   strip ''hello world'' \<noteq> [] \<and> strip ''hel'' \<noteq> []"
proof -
  have "events_of (fst (run cfg_ok env_ok rel_ok True [frame_final, frame_bad, frame_partial] init)) =
     [\<lparr>ev_type = ''final'', ev_text = ''hello world'', ev_timestamp = ''t1'',
        ev_raw_result = JObj [(''text'', JStr '' hello world '')]\<rparr>,
      \<lparr>ev_type = ''partial'', ev_text = ''hel'', ev_timestamp = ''t2'',
        ev_raw_result = JObj [(''partial'', JStr ''hel'')]\<rparr>]"
    by code_simp
  then show ?thesis
    using events_one_per_frame_nonempty
      [of cfg_ok ready True "[frame_final, frame_bad, frame_partial]" env_ok rel_ok init]
    by simp
qed

text \<open>
  Claim C2. Every event of a streaming run is the event of the pass over one frame of
  the script. If \<^verbatim>\<open>AcceptWaveform\<close> returned true for that frame, the event has type
  \<^verbatim>\<open>final\<close>, carries the parsed \<^verbatim>\<open>Result()\<close> and its text is the stripped \<^verbatim>\<open>text\<close>
  entry of it; otherwise \<^verbatim>\<open>AcceptWaveform\<close> returned false, the event has type
  \<^verbatim>\<open>partial\<close>, carries the parsed \<^verbatim>\<open>PartialResult()\<close> and its text is the stripped
  \<^verbatim>\<open>partial\<close> entry of it.
\<close>

theorem event_kind_follows_accept:
  assumes "ev \<in> set (events_of (fst (transcribe_stream cfg s cb fs))) \<or>
           ev \<in> set (events_of (fst (run cfg env rel cb fs s0)))"
  shows "\<exists>f \<in> set fs. snd (iteration cfg cb f) = Emit ev \<and>
           (if accept_waveform f = Inr True
            then ev_type ev = ''final'' \<and>
                 (\<exists>res. result_json f = Inr res \<and> ev_raw_result ev = res \<and>
                        get_stripped res ''text'' = Inr (ev_text ev))
            else accept_waveform f = Inr False \<and> ev_type ev = ''partial'' \<and>
                 (\<exists>partial. partial_json f = Inr partial \<and> ev_raw_result ev = partial \<and>
                        get_stripped partial ''partial'' = Inr (ev_text ev)))"
proof -
  from assms have "\<exists>f \<in> set fs. snd (iteration cfg cb f) = Emit ev"
  proof
    assume "ev \<in> set (events_of (fst (transcribe_stream cfg s cb fs)))"
    with transcribe_stream_trace[of cfg s cb fs] show ?thesis
      by (auto dest: transcribe_loop_events)
  next
    assume r: "ev \<in> set (events_of (fst (run cfg env rel cb fs s0)))"
    from run_shape[of cfg env rel cb fs s0] obtain pre post where
      q: "list_all quiet pre" "list_all quiet post" and
      sh: "fst (run cfg env rel cb fs s0) = pre @ post \<or>
           fst (run cfg env rel cb fs s0) = pre @ fst (run_loop cfg cb fs) @ post" by blast
    with r have "ev \<in> set (events_of (fst (run_loop cfg cb fs)))"
      by (auto simp: events_of_append quiet_events)
    then show ?thesis by (rule run_loop_events)
  qed
  then obtain f where f: "f \<in> set fs" "snd (iteration cfg cb f) = Emit ev" by blast
  then obtain tr where "iteration cfg cb f = (tr, Emit ev)" by (metis prod.collapse)
  then obtain d where "snd (recognize f d) = Inr (Some ev)" by (auto dest: iteration_Emit)
  from recognize_kind[OF this] f show ?thesis by blast
qed

theorem event_kind_follows_accept_witness:
  "\<lparr>ev_type = ''final'', ev_text = ''hello world'', ev_timestamp = ''t1'',
      ev_raw_result = JObj [(''text'', JStr '' hello world '')]\<rparr>
     \<in> set (events_of (fst (transcribe_stream cfg_ok ready True [frame_final, frame_partial]))) \<and>
   (\<exists>f \<in> set [frame_final, frame_partial].
      snd (iteration cfg_ok True f) =
        Emit \<lparr>ev_type = ''final'', ev_text = ''hello world'', ev_timestamp = ''t1'',
               ev_raw_result = JObj [(''text'', JStr '' hello world '')]\<rparr> \<and>
      accept_waveform f = Inr True)"
proof -
  have m: "\<lparr>ev_type = ''final'', ev_text = ''hello world'', ev_timestamp = ''t1'',
      ev_raw_result = JObj [(''text'', JStr '' hello world '')]\<rparr>
     \<in> set (events_of (fst (transcribe_stream cfg_ok ready True [frame_final, frame_partial])))"
    by code_simp
  from event_kind_follows_accept[OF disjI1[OF m]] obtain f where
    "f \<in> set [frame_final, frame_partial]"
    "snd (iteration cfg_ok True f) =
        Emit \<lparr>ev_type = ''final'', ev_text = ''hello world'', ev_timestamp = ''t1'',
               ev_raw_result = JObj [(''text'', JStr '' hello world '')]\<rparr>"
    "accept_waveform f = Inr True"
    by (auto split: if_splits)
  with m show ?thesis by blast
qed

text \<open>
  Claim C3. Whenever the generator of \<^verbatim>\<open>run\<close> has ended, by returning, by the caller's
  \<^verbatim>\<open>close()\<close> or \<^verbatim>\<open>throw()\<close>, or by an exception of any phase, its trace is the trace of
  the \<^verbatim>\<open>try\<close> body followed by the trace of \<^verbatim>\<open>cleanup\<close> on the session the body left, and
  the session it leaves is the one \<^verbatim>\<open>cleanup\<close> left; no event is yielded once \<^verbatim>\<open>cleanup\<close>
  has begun. What the caller then sees is the ending of the body, or the exception that
  left \<^verbatim>\<open>cleanup\<close> if there was one, as it leaves the generator (a \<^verbatim>\<open>StopIteration\<close> turned
  into \<^verbatim>\<open>RuntimeError\<close>). When the release calls return or raise an \<^verbatim>\<open>Exception\<close>, the
  fields \<^verbatim>\<open>stream\<close> and \<^verbatim>\<open>p\<close> are \<^verbatim>\<open>None\<close> and the caller sees the ending of the body.
\<close>

theorem run_cleans_up_before_it_ends:
  assumes "snd (snd (run cfg env rel cb fs s)) \<noteq> Running"
  shows "fst (run cfg env rel cb fs s) =
           fst (run_body cfg env cb fs s) @ fst (cleanup rel (fst (snd (run_body cfg env cb fs s)))) \<and>
         fst (snd (run cfg env rel cb fs s)) =
           fst (snd (cleanup rel (fst (snd (run_body cfg env cb fs s))))) \<and>
         events_of (fst (cleanup rel (fst (snd (run_body cfg env cb fs s))))) = [] \<and>
         snd (snd (run cfg env rel cb fs s)) =
           surfaced (case snd (snd (cleanup rel (fst (snd (run_body cfg env cb fs s))))) of
                       None \<Rightarrow> snd (snd (run_body cfg env cb fs s))
                     | Some e \<Rightarrow> Raised e) \<and>
         (ordinary_release rel \<longrightarrow>
            stream (fst (snd (run cfg env rel cb fs s))) = None \<and>
            p (fst (snd (run cfg env rel cb fs s))) = None \<and>
            snd (snd (run cfg env rel cb fs s)) = surfaced (snd (snd (run_body cfg env cb fs s))))"
proof -
  obtain tr s' out where b: "run_body cfg env cb fs s = (tr, s', out)"
    by (cases "run_body cfg env cb fs s")
  have nr: "out \<noteq> Running"
  proof
    assume "out = Running"
    with b have "snd (snd (run cfg env rel cb fs s)) = Running" by (simp add: run_def)
    with assms show False by simp
  qed
  obtain trc s'' r where c: "cleanup rel s' = (trc, s'', r)" by (cases "cleanup rel s'")
  from b nr c have run: "run cfg env rel cb fs s =
      (tr @ trc, s'', surfaced (case r of None \<Rightarrow> out | Some e \<Rightarrow> Raised e))"
    by (cases r) (simp_all add: run_def finally_cleanup_def)
  have ev: "events_of trc = []" using cleanup_quiet[of rel s'] c by (simp add: quiet_events)
  have "ordinary_release rel \<Longrightarrow> stream s'' = None \<and> p s'' = None \<and> r = None"
    using cleanup_ordinary[of rel s'] c by auto
  with b c run ev show ?thesis by (cases r) auto
qed

theorem run_cleans_up_before_it_ends_witness:
  "run cfg_ok env_ok rel_ok True [frame_final, frame_dead] init =
     ([Log ''Loading Vosk model'', NewModel ''model'', Log ''Vosk model loaded successfully!'',
       NewPyAudio, OpenStream 3 None, Log ''[LiveTranscriber] Audio stream opened'',
       NewRecognizer 0, SetWords 1, Log ''[LiveTranscriber] Vosk recognizer initialized'',
       Log ''[LiveTranscriber] Starting real-time transcription'',
       StreamRead (Inr ''f1''), Callback ''f1'', AcceptWaveform ''f1'', CallResult,
       Yield \<lparr>ev_type = ''final'', ev_text = ''hello world'', ev_timestamp = ''t1'',
               ev_raw_result = JObj [(''text'', JStr '' hello world '')]\<rparr>,
       StreamRead (Inl (Exception ''OSError'')),
       Log ''[LiveTranscriber] Error during transcription'',
       StopStream 2, CloseStream 2, Terminate 3,
       Log ''[LiveTranscriber] Audio resources cleaned up''],
      \<lparr>model = Some 0, recognizer = Some 1, stream = None, p = None\<rparr>,
      Raised (Exception ''OSError'')) \<and>
   snd (snd (run cfg_ok env_ok rel_ok True [frame_interrupt] init)) = Returned \<and>
   snd (snd (run cfg_ok env_ok rel_ok True [frame_cancel] init)) = Closed \<and>
   snd (snd (run cfg_ok env_no_device rel_ok True [] init)) = Raised (Exception ''OSError'') \<and>
   snd (snd (run_body cfg_ok env_ok True [frame_stop] init)) = Raised (Exception ''StopIteration'') \<and>
   snd (snd (run cfg_ok env_ok rel_ok True [frame_stop] init)) = Raised (Exception ''RuntimeError'') \<and>
   fst (cleanup rel_ok (fst (snd (run_body cfg_ok env_ok True [frame_stop] init)))) =
     [StopStream 2, CloseStream 2, Terminate 3,
      Log ''[LiveTranscriber] Audio resources cleaned up''] \<and>
   fst (run cfg_ok env_ok rel_ok True [frame_stop] init) =
     fst (run_body cfg_ok env_ok True [frame_stop] init) @
     fst (cleanup rel_ok (fst (snd (run_body cfg_ok env_ok True [frame_stop] init)))) \<and>
   stream (fst (snd (run cfg_ok env_ok rel_ok True [frame_stop] init))) = None \<and>
   p (fst (snd (run cfg_ok env_ok rel_ok True [frame_stop] init))) = None"
proof -
  have a: "run cfg_ok env_ok rel_ok True [frame_final, frame_dead] init =
     ([Log ''Loading Vosk model'', NewModel ''model'', Log ''Vosk model loaded successfully!'',
       NewPyAudio, OpenStream 3 None, Log ''[LiveTranscriber] Audio stream opened'',
       NewRecognizer 0, SetWords 1, Log ''[LiveTranscriber] Vosk recognizer initialized'',
       Log ''[LiveTranscriber] Starting real-time transcription'',
       StreamRead (Inr ''f1''), Callback ''f1'', AcceptWaveform ''f1'', CallResult,
       Yield \<lparr>ev_type = ''final'', ev_text = ''hello world'', ev_timestamp = ''t1'',
               ev_raw_result = JObj [(''text'', JStr '' hello world '')]\<rparr>,
       StreamRead (Inl (Exception ''OSError'')),
       Log ''[LiveTranscriber] Error during transcription'',
       StopStream 2, CloseStream 2, Terminate 3,
       Log ''[LiveTranscriber] Audio resources cleaned up''],
      \<lparr>model = Some 0, recognizer = Some 1, stream = None, p = None\<rparr>,
      Raised (Exception ''OSError''))"
    by code_simp
  have b: "snd (snd (run cfg_ok env_ok rel_ok True [frame_interrupt] init)) = Returned"
    by code_simp
  have c: "snd (snd (run cfg_ok env_ok rel_ok True [frame_cancel] init)) = Closed"
    by code_simp
  have d: "snd (snd (run cfg_ok env_no_device rel_ok True [] init)) = Raised (Exception ''OSError'')"
    by code_simp
  have e: "fst (cleanup rel_ok (fst (snd (run_body cfg_ok env_ok True [frame_stop] init)))) =
     [StopStream 2, CloseStream 2, Terminate 3,
      Log ''[LiveTranscriber] Audio resources cleaned up'']"
    by code_simp
  have f: "ordinary_release rel_ok" by (simp add: ordinary_release_def rel_ok_def)
  have k: "snd (snd (run_body cfg_ok env_ok True [frame_stop] init)) =
             Raised (Exception ''StopIteration'')"
    by code_simp
  have l: "snd (snd (run cfg_ok env_ok rel_ok True [frame_stop] init)) =
             Raised (Exception ''RuntimeError'')"
    by code_simp
  have g: "snd (snd (run cfg_ok env_ok rel_ok True [frame_stop] init)) \<noteq> Running"
    using l by simp
  note t = run_cleans_up_before_it_ends[OF g]
  from t have h: "fst (run cfg_ok env_ok rel_ok True [frame_stop] init) =
     fst (run_body cfg_ok env_ok True [frame_stop] init) @
     fst (cleanup rel_ok (fst (snd (run_body cfg_ok env_ok True [frame_stop] init))))"
    by blast
  from t f have i: "stream (fst (snd (run cfg_ok env_ok rel_ok True [frame_stop] init))) = None"
    and j: "p (fst (snd (run cfg_ok env_ok rel_ok True [frame_stop] init))) = None"
    by blast+
  from a b c d e h i j k l show ?thesis by blast
qed

text \<open>
  Claim C4. Let the stream be running after the frames \<open>pre\<close>, let the next frame \<open>f\<close>
  be read, let the callback (if one is given) return or raise an \<^verbatim>\<open>Exception\<close>, and
  let the recognizer part raise an \<^verbatim>\<open>Exception\<close> on \<open>f\<close>, in \<^verbatim>\<open>AcceptWaveform\<close>, in
  fetching or parsing the result, or in reading its text. Then the pass over \<open>f\<close> made the
  recognizer calls, printed the error, yields no event and does not end the generator: the
  run over \<open>pre @ f # rest\<close> is the run over \<open>pre\<close>, the pass over \<open>f\<close>, and then the loop
  over \<open>rest\<close> as if it had started there. When \<open>rest\<close> has a next frame, the first thing
  the loop does is to read it; and when that read returns a frame \<open>d'\<close> (and the callback
  returns or raises an \<^verbatim>\<open>Exception\<close>), the frame is processed: the trace goes on with
  \<^verbatim>\<open>AcceptWaveform\<close> on \<open>d'\<close> and the other recognizer calls for it, and if these give an
  event, the next action is to yield that event.
\<close>

theorem recognizer_error_skips_frame:
  assumes running: "snd (transcribe_stream cfg s cb pre) = Running"
    and fpb: "frame_per_buffer cfg = Inr n"
    and rd: "stream_read f = Inr d"
    and sink: "cb \<longrightarrow> (\<forall>e. callback_raises f = Some e \<longrightarrow> is_Exception e)"
    and err: "snd (recognize f d) = Inl (Exception m)"
  shows "snd (iteration cfg cb f) = Skip \<and>
         events_of (fst (iteration cfg cb f)) = [] \<and>
         (\<exists>before. fst (iteration cfg cb f) =
            StreamRead (Inr d) # before @ fst (recognize f d) @
              [Log ''[LiveTranscriber] Vosk processing error'']) \<and>
         transcribe_stream cfg s cb (pre @ f # rest) =
           prepend (fst (transcribe_stream cfg s cb pre) @ fst (iteration cfg cb f))
             (transcribe_loop cfg cb rest) \<and>
         (\<forall>g gs. rest = g # gs \<longrightarrow>
            (\<exists>tr. fst (transcribe_loop cfg cb rest) = StreamRead (stream_read g) # tr)) \<and>
         (\<forall>g gs d'. rest = g # gs \<and> stream_read g = Inr d' \<and>
              (cb \<longrightarrow> (\<forall>e. callback_raises g = Some e \<longrightarrow> is_Exception e)) \<longrightarrow>
            (\<exists>before calls post.
               fst (recognize g d') = AcceptWaveform d' # calls \<and>
               fst (transcribe_loop cfg cb rest) =
                 StreamRead (Inr d') # before @ AcceptWaveform d' # calls @ post \<and>
               (\<forall>ev. snd (recognize g d') = Inr (Some ev) \<longrightarrow> (\<exists>tl. post = Yield ev # tl))))"
proof -
  have skip: "snd (iteration cfg cb f) = Skip"
  proof (cases cb)
    case False
    with fpb rd err show ?thesis by (simp add: iteration_def feed_recognizer_error)
  next
    case True
    with sink have "callback_raises f = None \<or> (\<exists>m'. callback_raises f = Some (Exception m'))"
      by (cases "callback_raises f") (auto elim: is_Exception.elims)
    with True fpb rd err show ?thesis by (auto simp: iteration_def feed_recognizer_error)
  qed
  from iteration_feeds[OF fpb rd sink] err
  have fed: "\<exists>before. fst (iteration cfg cb f) =
            StreamRead (Inr d) # before @ fst (recognize f d) @
              [Log ''[LiveTranscriber] Vosk processing error'']"
    by blast
  from running have "\<not> (stream s = None \<or> recognizer s = None)"
    by (auto simp: transcribe_stream_def split: if_splits)
  then have ts: "transcribe_stream cfg s cb xs =
      prepend [Log ''[LiveTranscriber] Starting real-time transcription'']
        (transcribe_loop cfg cb xs)" for xs
    unfolding transcribe_stream_def by (rule if_not_P)
  with running have pre: "snd (transcribe_loop cfg cb pre) = Running"
    by (simp add: prepend_def)
  have "transcribe_loop cfg cb (f # rest) =
          prepend (fst (iteration cfg cb f)) (transcribe_loop cfg cb rest)"
    using skip by (cases "iteration cfg cb f") simp
  with transcribe_loop_append[OF pre, of "f # rest"]
  have whole: "transcribe_stream cfg s cb (pre @ f # rest) =
           prepend (fst (transcribe_stream cfg s cb pre) @ fst (iteration cfg cb f))
             (transcribe_loop cfg cb rest)"
    by (simp add: ts prepend_def)
  have next_fed: "\<exists>before calls post.
               fst (recognize g d') = AcceptWaveform d' # calls \<and>
               fst (transcribe_loop cfg cb rest) =
                 StreamRead (Inr d') # before @ AcceptWaveform d' # calls @ post \<and>
               (\<forall>ev. snd (recognize g d') = Inr (Some ev) \<longrightarrow> (\<exists>tl. post = Yield ev # tl))"
    if r: "rest = g # gs" and g: "stream_read g = Inr d'"
      and c: "cb \<longrightarrow> (\<forall>e. callback_raises g = Some e \<longrightarrow> is_Exception e)" for g gs d'
  proof -
    from recognize_starts[of g d'] obtain calls where
      rc: "fst (recognize g d') = AcceptWaveform d' # calls" by blast
    from transcribe_loop_feeds[OF fpb g c, of gs] obtain before post where
      "fst (transcribe_loop cfg cb (g # gs)) =
         StreamRead (Inr d') # before @ fst (recognize g d') @ post"
      "\<forall>ev. snd (recognize g d') = Inr (Some ev) \<longrightarrow> (\<exists>tl. post = Yield ev # tl)" by blast
    with rc r show ?thesis by auto
  qed
  from skip iteration_events[of cfg cb f] fed whole transcribe_loop_reads[OF fpb, of cb] next_fed
  show ?thesis by blast
qed

theorem recognizer_error_skips_frame_witness:
  "snd (transcribe_stream cfg_ok ready True [frame_final]) = Running \<and>
   snd (recognize frame_bad ''f3'') = Inl (Exception ''vosk'') \<and>
   snd (iteration cfg_ok True frame_bad) = Skip \<and>
   transcribe_stream cfg_ok ready True ([frame_final] @ frame_bad # [frame_partial]) =
     ([Log ''[LiveTranscriber] Starting real-time transcription'',
       StreamRead (Inr ''f1''), Callback ''f1'', AcceptWaveform ''f1'', CallResult,
       Yield \<lparr>ev_type = ''final'', ev_text = ''hello world'', ev_timestamp = ''t1'',
               ev_raw_result = JObj [(''text'', JStr '' hello world '')]\<rparr>,
       StreamRead (Inr ''f3''), Callback ''f3'', AcceptWaveform ''f3'',
       Log ''[LiveTranscriber] Vosk processing error'',
       StreamRead (Inr ''f2''), Callback ''f2'', Log ''[LiveTranscriber] audio_callback error'',
       AcceptWaveform ''f2'', CallPartialResult,
       Yield \<lparr>ev_type = ''partial'', ev_text = ''hel'', ev_timestamp = ''t2'',
               ev_raw_result = JObj [(''partial'', JStr ''hel'')]\<rparr>], Running) \<and>
   transcribe_stream cfg_ok ready True ([frame_final] @ frame_bad # [frame_partial]) =
     prepend (fst (transcribe_stream cfg_ok ready True [frame_final]) @
              fst (iteration cfg_ok True frame_bad))
       (transcribe_loop cfg_ok True [frame_partial]) \<and>
   (\<exists>before calls post.
      fst (recognize frame_partial ''f2'') = AcceptWaveform ''f2'' # calls \<and>
      fst (transcribe_loop cfg_ok True [frame_partial]) =
        StreamRead (Inr ''f2'') # before @ AcceptWaveform ''f2'' # calls @ post \<and>
      (\<exists>tl. post = Yield \<lparr>ev_type = ''partial'', ev_text = ''hel'', ev_timestamp = ''t2'',
                             ev_raw_result = JObj [(''partial'', JStr ''hel'')]\<rparr> # tl))"
proof -
  have a: "snd (transcribe_stream cfg_ok ready True [frame_final]) = Running" by code_simp
  have b: "frame_per_buffer cfg_ok = Inr 1024" by (simp add: cfg_ok_def)
  have c: "stream_read frame_bad = Inr ''f3''" by (simp add: frame_bad_def)
  have d: "True \<longrightarrow> (\<forall>e. callback_raises frame_bad = Some e \<longrightarrow> is_Exception e)"
    by (simp add: frame_bad_def)
  have e: "snd (recognize frame_bad ''f3'') = Inl (Exception ''vosk'')"
    by (simp add: recognize_def frame_bad_def)
  have g: "stream_read frame_partial = Inr ''f2''" by (simp add: frame_partial_def)
  have h: "True \<longrightarrow> (\<forall>e. callback_raises frame_partial = Some e \<longrightarrow> is_Exception e)"
    by (simp add: frame_partial_def)
  have i: "snd (recognize frame_partial ''f2'') =
      Inr (Some \<lparr>ev_type = ''partial'', ev_text = ''hel'', ev_timestamp = ''t2'',
                  ev_raw_result = JObj [(''partial'', JStr ''hel'')]\<rparr>)"
    by code_simp
  have j: "transcribe_stream cfg_ok ready True ([frame_final] @ frame_bad # [frame_partial]) =
     ([Log ''[LiveTranscriber] Starting real-time transcription'',
       StreamRead (Inr ''f1''), Callback ''f1'', AcceptWaveform ''f1'', CallResult,
       Yield \<lparr>ev_type = ''final'', ev_text = ''hello world'', ev_timestamp = ''t1'',
               ev_raw_result = JObj [(''text'', JStr '' hello world '')]\<rparr>,
       StreamRead (Inr ''f3''), Callback ''f3'', AcceptWaveform ''f3'',
       Log ''[LiveTranscriber] Vosk processing error'',
       StreamRead (Inr ''f2''), Callback ''f2'', Log ''[LiveTranscriber] audio_callback error'',
       AcceptWaveform ''f2'', CallPartialResult,
       Yield \<lparr>ev_type = ''partial'', ev_text = ''hel'', ev_timestamp = ''t2'',
               ev_raw_result = JObj [(''partial'', JStr ''hel'')]\<rparr>], Running)"
    by code_simp
  note t = recognizer_error_skips_frame[OF a b c d e, of "[frame_partial]"]
  from t have k: "snd (iteration cfg_ok True frame_bad) = Skip" by blast
  from t have l: "transcribe_stream cfg_ok ready True ([frame_final] @ frame_bad # [frame_partial]) =
     prepend (fst (transcribe_stream cfg_ok ready True [frame_final]) @
              fst (iteration cfg_ok True frame_bad))
       (transcribe_loop cfg_ok True [frame_partial])" by blast
  from t g h have "\<exists>before calls post.
      fst (recognize frame_partial ''f2'') = AcceptWaveform ''f2'' # calls \<and>
      fst (transcribe_loop cfg_ok True [frame_partial]) =
        StreamRead (Inr ''f2'') # before @ AcceptWaveform ''f2'' # calls @ post \<and>
      (\<forall>ev. snd (recognize frame_partial ''f2'') = Inr (Some ev) \<longrightarrow> (\<exists>tl. post = Yield ev # tl))"
    by blast
  with i have m: "\<exists>before calls post.
      fst (recognize frame_partial ''f2'') = AcceptWaveform ''f2'' # calls \<and>
      fst (transcribe_loop cfg_ok True [frame_partial]) =
        StreamRead (Inr ''f2'') # before @ AcceptWaveform ''f2'' # calls @ post \<and>
      (\<exists>tl. post = Yield \<lparr>ev_type = ''partial'', ev_text = ''hel'', ev_timestamp = ''t2'',
                             ev_raw_result = JObj [(''partial'', JStr ''hel'')]\<rparr> # tl)"
    by metis
  from a e j k l m show ?thesis by blast
qed

text \<open>
  Claim C5 as stated fails: a callback that raises \<^verbatim>\<open>SystemExit\<close>, which is no
  \<^verbatim>\<open>Exception\<close>, at the first frame ends the loop before the frame is fed; the caller of
  \<^verbatim>\<open>run\<close> gets the \<^verbatim>\<open>SystemExit\<close>, and neither of the two events that the same frames give
  without a callback is yielded.
\<close>

theorem callback_system_exit_counterexample:
  "run cfg_ok env_ok rel_ok True [frame_exit, frame_partial] init =
     ([Log ''Loading Vosk model'', NewModel ''model'', Log ''Vosk model loaded successfully!'',
       NewPyAudio, OpenStream 3 None, Log ''[LiveTranscriber] Audio stream opened'',
       NewRecognizer 0, SetWords 1, Log ''[LiveTranscriber] Vosk recognizer initialized'',
       Log ''[LiveTranscriber] Starting real-time transcription'',
       StreamRead (Inr ''f7''), Callback ''f7'',
       StopStream 2, CloseStream 2, Terminate 3,
       Log ''[LiveTranscriber] Audio resources cleaned up''],
      \<lparr>model = Some 0, recognizer = Some 1, stream = None, p = None\<rparr>,
      Raised (BaseException ''SystemExit'')) \<and>
   events_of (fst (run cfg_ok env_ok rel_ok False [frame_exit, frame_partial] init)) =
     [\<lparr>ev_type = ''final'', ev_text = ''seven'', ev_timestamp = ''t7'',
        ev_raw_result = JObj [(''text'', JStr ''seven'')]\<rparr>,
      \<lparr>ev_type = ''partial'', ev_text = ''hel'', ev_timestamp = ''t2'',
        ev_raw_result = JObj [(''partial'', JStr ''hel'')]\<rparr>] \<and>
   snd (snd (run cfg_ok env_ok rel_ok False [frame_exit, frame_partial] init)) = Running"
  by code_simp

text \<open>
  Claim C5, amended. Let the callback return or raise an \<^verbatim>\<open>Exception\<close> at every frame (it
  may raise at all of them). Then \<^verbatim>\<open>run\<close> yields the same events, ends the same way and
  leaves the same session as with a callback that never raises, and as with no callback at
  all: the callback's \<^verbatim>\<open>Exception\<close> neither ends the loop nor reaches the caller, and no
  event is lost.
\<close>

theorem callback_errors_isolated:
  assumes "list_all (\<lambda>f. ordinary (callback_raises f)) fs"
  shows "events_of (fst (run cfg env rel True fs s)) =
           events_of (fst (run cfg env rel True (map silence fs) s)) \<and>
         snd (run cfg env rel True fs s) = snd (run cfg env rel True (map silence fs) s) \<and>
         events_of (fst (run cfg env rel True fs s)) =
           events_of (fst (run cfg env rel False fs s)) \<and>
         snd (run cfg env rel True fs s) = snd (run cfg env rel False fs s)"
proof -
  note l = run_loop_silence[OF assms, of cfg]
  from l have a: "events_of (fst (run_loop cfg True fs)) =
                    events_of (fst (run_loop cfg True (map silence fs)))"
    and b: "snd (run_loop cfg True fs) = snd (run_loop cfg True (map silence fs))"
    and c: "events_of (fst (run_loop cfg True fs)) = events_of (fst (run_loop cfg False fs))"
    and d: "snd (run_loop cfg True fs) = snd (run_loop cfg False fs)"
    by blast+
  from run_determined[OF a b, of env rel s] run_determined[OF c d, of env rel s]
  show ?thesis by blast
qed

theorem callback_errors_isolated_witness:
  "list_all (\<lambda>f. ordinary (callback_raises f)) (map raising [frame_final, frame_partial, frame_dead]) \<and>
   events_of (fst (run cfg_ok env_ok rel_ok True
       (map raising [frame_final, frame_partial, frame_dead]) init)) =
     [\<lparr>ev_type = ''final'', ev_text = ''hello world'', ev_timestamp = ''t1'',
        ev_raw_result = JObj [(''text'', JStr '' hello world '')]\<rparr>,
      \<lparr>ev_type = ''partial'', ev_text = ''hel'', ev_timestamp = ''t2'',
        ev_raw_result = JObj [(''partial'', JStr ''hel'')]\<rparr>] \<and>
   events_of (fst (run cfg_ok env_ok rel_ok True
       (map raising [frame_final, frame_partial, frame_dead]) init)) =
     events_of (fst (run cfg_ok env_ok rel_ok False
       (map raising [frame_final, frame_partial, frame_dead]) init)) \<and>
   snd (run cfg_ok env_ok rel_ok True (map raising [frame_final, frame_partial, frame_dead]) init) =
     (\<lparr>model = Some 0, recognizer = Some 1, stream = None, p = None\<rparr>,
      Raised (Exception ''OSError'')) \<and>
   snd (run cfg_ok env_ok rel_ok True
       (map silence (map raising [frame_final, frame_partial, frame_dead])) init) =
     (\<lparr>model = Some 0, recognizer = Some 1, stream = None, p = None\<rparr>,
      Raised (Exception ''OSError''))"
proof -
  have a: "list_all (\<lambda>f. ordinary (callback_raises f))
             (map raising [frame_final, frame_partial, frame_dead])"
    by (simp add: raising_def)
  have b: "events_of (fst (run cfg_ok env_ok rel_ok True
       (map raising [frame_final, frame_partial, frame_dead]) init)) =
     [\<lparr>ev_type = ''final'', ev_text = ''hello world'', ev_timestamp = ''t1'',
        ev_raw_result = JObj [(''text'', JStr '' hello world '')]\<rparr>,
      \<lparr>ev_type = ''partial'', ev_text = ''hel'', ev_timestamp = ''t2'',
        ev_raw_result = JObj [(''partial'', JStr ''hel'')]\<rparr>]"
    by code_simp
  have c: "snd (run cfg_ok env_ok rel_ok True
       (map raising [frame_final, frame_partial, frame_dead]) init) =
     (\<lparr>model = Some 0, recognizer = Some 1, stream = None, p = None\<rparr>,
      Raised (Exception ''OSError''))"
    by code_simp
  note t = callback_errors_isolated[OF a, of cfg_ok env_ok rel_ok init]
  from t have d: "events_of (fst (run cfg_ok env_ok rel_ok True
       (map raising [frame_final, frame_partial, frame_dead]) init)) =
     events_of (fst (run cfg_ok env_ok rel_ok False
       (map raising [frame_final, frame_partial, frame_dead]) init))"
    by blast
  from t have "snd (run cfg_ok env_ok rel_ok True
       (map raising [frame_final, frame_partial, frame_dead]) init) =
     snd (run cfg_ok env_ok rel_ok True
       (map silence (map raising [frame_final, frame_partial, frame_dead])) init)"
    by blast
  from trans[OF this[symmetric] c] a b c d show ?thesis by blast
qed

text \<open>
  Claim C6. With a callback given, in the trace of a streaming run every frame that
  \<^verbatim>\<open>stream.read\<close> returned is handed to the callback at once, frame after frame in the
  order of the reads, and the recognizer is fed a frame only after the callback had that
  same frame.
\<close>

theorem callback_before_recognizer:
  "sink_before_feed (fst (transcribe_stream cfg s True fs)) \<and>
   sink_before_feed (fst (run cfg env rel True fs s0))"
proof
  from transcribe_loop_sink[of NoFrame cfg fs] obtain st' where
    "monitor sink_step NoFrame (fst (transcribe_loop cfg True fs)) = Some st'" "settled st'"
    by auto
  with transcribe_stream_trace[of cfg s True fs]
  show "sink_before_feed (fst (transcribe_stream cfg s True fs))"
    by (cases st') (auto simp: sink_before_feed_def)
next
  from run_shape[of cfg env rel True fs s0] obtain pre post where
    q: "list_all quiet pre" "list_all quiet post" and
    sh: "fst (run cfg env rel True fs s0) = pre @ post \<or>
         fst (run cfg env rel True fs s0) = pre @ fst (run_loop cfg True fs) @ post" by blast
  from run_loop_sink[of NoFrame cfg fs] obtain st' where
    "monitor sink_step NoFrame (fst (run_loop cfg True fs)) = Some st'" "settled st'"
    by auto
  with q sh show "sink_before_feed (fst (run cfg env rel True fs s0))"
    by (cases st') (auto simp: sink_before_feed_def monitor_append quiet_sink)
qed

theorem callback_before_recognizer_witness:
  "fst (transcribe_stream cfg_ok ready True [frame_final, frame_partial]) =
     [Log ''[LiveTranscriber] Starting real-time transcription'',
      StreamRead (Inr ''f1''), Callback ''f1'', AcceptWaveform ''f1'', CallResult,
      Yield \<lparr>ev_type = ''final'', ev_text = ''hello world'', ev_timestamp = ''t1'',
              ev_raw_result = JObj [(''text'', JStr '' hello world '')]\<rparr>,
      StreamRead (Inr ''f2''), Callback ''f2'', Log ''[LiveTranscriber] audio_callback error'',
      AcceptWaveform ''f2'', CallPartialResult,
      Yield \<lparr>ev_type = ''partial'', ev_text = ''hel'', ev_timestamp = ''t2'',
              ev_raw_result = JObj [(''partial'', JStr ''hel'')]\<rparr>] \<and>
   sink_before_feed (fst (transcribe_stream cfg_ok ready True [frame_final, frame_partial]))"
proof -
  have "fst (transcribe_stream cfg_ok ready True [frame_final, frame_partial]) =
     [Log ''[LiveTranscriber] Starting real-time transcription'',
      StreamRead (Inr ''f1''), Callback ''f1'', AcceptWaveform ''f1'', CallResult,
      Yield \<lparr>ev_type = ''final'', ev_text = ''hello world'', ev_timestamp = ''t1'',
              ev_raw_result = JObj [(''text'', JStr '' hello world '')]\<rparr>,
      StreamRead (Inr ''f2''), Callback ''f2'', Log ''[LiveTranscriber] audio_callback error'',
      AcceptWaveform ''f2'', CallPartialResult,
      Yield \<lparr>ev_type = ''partial'', ev_text = ''hel'', ev_timestamp = ''t2'',
              ev_raw_result = JObj [(''partial'', JStr ''hel'')]\<rparr>]"
    by code_simp
  with callback_before_recognizer[of cfg_ok ready "[frame_final, frame_partial]" env_ok rel_ok init]
  show ?thesis by simp
qed

text \<open>
  Claim C7 as stated fails in its last part: after two calls of \<^verbatim>\<open>cleanup\<close> on a session
  with all fields set no exception was raised, yet the session still holds its
  recognizer.
\<close>

theorem cleanup_leaves_recognizer_counterexample:
  "snd (snd (cleanups [rel_ok, rel_ok] ready)) = None \<and>
   recognizer (fst (snd (cleanups [rel_ok, rel_ok] ready))) = Some 1"
  by (simp add: cleanup_def cleanup_p_def rel_ok_def ready_def)

text \<open>
  Claim C7, amended. \<^verbatim>\<open>cleanup\<close> may be called any number of times in succession, in any
  state of the session (so also after \<^verbatim>\<open>load_model\<close> or \<^verbatim>\<open>setup_audio_stream\<close> failed half
  way): when the release calls return or raise an \<^verbatim>\<open>Exception\<close>, no call raises, the
  first call leaves \<^verbatim>\<open>stream\<close> and \<^verbatim>\<open>p\<close> at \<^verbatim>\<open>None\<close>, every later call only prints, and
  the other two fields are as they were.
\<close>

theorem cleanup_idempotent:
  assumes "list_all ordinary_release (rel # rels)"
  shows "cleanups (rel # rels) s =
           (fst (cleanup rel s) @
              replicate (length rels) (Log ''[LiveTranscriber] Audio resources cleaned up''),
            s\<lparr>stream := None, p := None\<rparr>, None)"
proof -
  from assms have r: "ordinary_release rel" and rs: "list_all ordinary_release rels" by simp_all
  from cleanups_after_first[OF rs, of "s\<lparr>stream := None, p := None\<rparr>"] cleanup_ordinary[OF r, of s]
  show ?thesis by simp
qed

theorem cleanup_idempotent_witness:
  "list_all ordinary_release [rel_bad, rel_ok, rel_bad] \<and>
   setup_audio_stream cfg_ok env_no_device init =
     ([NewPyAudio, OpenStream 3 None], \<lparr>model = None, recognizer = None, stream = None, p = Some 3\<rparr>,
      Some (Exception ''OSError'')) \<and>
   cleanups [rel_bad, rel_ok, rel_bad]
       \<lparr>model = None, recognizer = None, stream = None, p = Some 3\<rparr> =
     ([Terminate 3, Log ''[LiveTranscriber] Audio resources cleaned up'',
       Log ''[LiveTranscriber] Audio resources cleaned up'',
       Log ''[LiveTranscriber] Audio resources cleaned up''],
      \<lparr>model = None, recognizer = None, stream = None, p = None\<rparr>, None)"
proof -
  have a: "list_all ordinary_release [rel_bad, rel_ok, rel_bad]"
    by (simp add: ordinary_release_def rel_ok_def rel_bad_def)
  have b: "setup_audio_stream cfg_ok env_no_device init =
     ([NewPyAudio, OpenStream 3 None], \<lparr>model = None, recognizer = None, stream = None, p = Some 3\<rparr>,
      Some (Exception ''OSError''))"
    by (simp add: setup_audio_stream_def input_device_index_def cfg_ok_def env_no_device_def init_def)
  have c: "fst (cleanup rel_bad \<lparr>model = None, recognizer = None, stream = None, p = Some 3\<rparr>) =
      [Terminate 3, Log ''[LiveTranscriber] Audio resources cleaned up'']"
    by (simp add: cleanup_def cleanup_p_def rel_bad_def)
  from cleanup_idempotent[OF a, of "\<lparr>model = None, recognizer = None, stream = None, p = Some 3\<rparr>"]
    a b c show ?thesis by simp
qed

text \<open>
  Claim C8 as stated fails: on a session with all four fields set, \<^verbatim>\<open>cleanup\<close> stops and
  closes the stream and terminates the audio system, makes no call for the recognizer or
  the model, and leaves both fields set.
\<close>

theorem cleanup_keeps_recognizer_counterexample:
  "fst (cleanup rel_ok ready) =
     [StopStream 2, CloseStream 2, Terminate 3,
      Log ''[LiveTranscriber] Audio resources cleaned up''] \<and>
   model (fst (snd (cleanup rel_ok ready))) = Some 0 \<and>
   recognizer (fst (snd (cleanup rel_ok ready))) = Some 1"
  by (simp add: cleanup_def cleanup_p_def rel_ok_def ready_def)

text \<open>
  Claim C8, amended. \<^verbatim>\<open>cleanup\<close> releases the audio side only. The calls it makes are
  always an initial part of this list, for the handles the session holds: stop the stream,
  close the stream, terminate the audio system, print. When each release call returns or
  raises an \<^verbatim>\<open>Exception\<close>, it makes all of them. In every case the fields \<^verbatim>\<open>model\<close> and
  \<^verbatim>\<open>recognizer\<close> keep their values, and no call is made for them.
\<close>

theorem cleanup_releases_audio_in_order:
  "(\<exists>rest. release_calls s @ [Log ''[LiveTranscriber] Audio resources cleaned up''] =
             fst (cleanup rel s) @ rest) \<and>
   (ordinary_release rel \<longrightarrow>
      fst (cleanup rel s) =
        (case stream s of None \<Rightarrow> [] | Some h \<Rightarrow> [StopStream h, CloseStream h]) @
        (case p s of None \<Rightarrow> [] | Some a \<Rightarrow> [Terminate a]) @
        [Log ''[LiveTranscriber] Audio resources cleaned up'']) \<and>
   model (fst (snd (cleanup rel s))) = model s \<and>
   recognizer (fst (snd (cleanup rel s))) = recognizer s"
  using cleanup_trace_prefix[of s rel] cleanup_keeps_model[of rel s] cleanup_ordinary[of rel s]
  by (simp add: release_calls_def)

theorem cleanup_releases_audio_in_order_witness:
  "ordinary_release rel_ok \<and>
   release_calls ready = [StopStream 2, CloseStream 2, Terminate 3] \<and>
   fst (cleanup rel_ok ready) =
     [StopStream 2, CloseStream 2, Terminate 3,
      Log ''[LiveTranscriber] Audio resources cleaned up''] \<and>
   fst (cleanup rel_interrupt ready) = [StopStream 2] \<and>
   (\<exists>rest. [StopStream 2, CloseStream 2, Terminate 3,
             Log ''[LiveTranscriber] Audio resources cleaned up''] = [StopStream 2] @ rest) \<and>
   model (fst (snd (cleanup rel_ok ready))) = Some 0 \<and>
   recognizer (fst (snd (cleanup rel_ok ready))) = Some 1 \<and>
   model (fst (snd (cleanup rel_interrupt ready))) = Some 0 \<and>
   recognizer (fst (snd (cleanup rel_interrupt ready))) = Some 1"
proof -
  have a: "ordinary_release rel_ok" by (simp add: ordinary_release_def rel_ok_def)
  have b: "release_calls ready = [StopStream 2, CloseStream 2, Terminate 3]"
    by (simp add: release_calls_def ready_def)
  have c: "fst (cleanup rel_interrupt ready) = [StopStream 2]"
    by (simp add: cleanup_def rel_interrupt_def ready_def)
  have d: "model ready = Some 0" "recognizer ready = Some 1" "stream ready = Some 2"
    "p ready = Some 3"
    by (simp_all add: ready_def)
  note t1 = cleanup_releases_audio_in_order[of ready rel_ok]
  note t2 = cleanup_releases_audio_in_order[of ready rel_interrupt]
  from t1 a d have e: "fst (cleanup rel_ok ready) =
     [StopStream 2, CloseStream 2, Terminate 3,
      Log ''[LiveTranscriber] Audio resources cleaned up'']"
    by simp
  from t1 d have f: "model (fst (snd (cleanup rel_ok ready))) = Some 0"
    "recognizer (fst (snd (cleanup rel_ok ready))) = Some 1" by simp_all
  from t2 d have g: "model (fst (snd (cleanup rel_interrupt ready))) = Some 0"
    "recognizer (fst (snd (cleanup rel_interrupt ready))) = Some 1" by simp_all
  from t2 b c have h: "\<exists>rest. [StopStream 2, CloseStream 2, Terminate 3,
             Log ''[LiveTranscriber] Audio resources cleaned up''] = [StopStream 2] @ rest"
    by simp
  from a b c e f g h show ?thesis by blast
qed

text \<open>
  Claim C9 as stated fails: on a fresh session, without a model, \<^verbatim>\<open>setup_audio_stream\<close>
  raises nothing and leaves the audio system and the stream open.
\<close>

theorem setup_audio_stream_unguarded_counterexample:
  "setup_audio_stream cfg_ok env_ok init =
     ([NewPyAudio, OpenStream 3 None, Log ''[LiveTranscriber] Audio stream opened''],
      \<lparr>model = None, recognizer = None, stream = Some 2, p = Some 3\<rparr>, None)"
  by (simp add: setup_audio_stream_def input_device_index_def cfg_ok_def env_ok_def init_def)

text \<open>
  Claim C9, amended. The method that refuses to run before \<^verbatim>\<open>load_model\<close> is
  \<^verbatim>\<open>start_recognition\<close>: without a model it raises \<^verbatim>\<open>RuntimeError\<close>, calls nothing and
  leaves the session as it was, so it opens nothing and closes nothing (what
  \<^verbatim>\<open>setup_audio_stream\<close> opened before stays open). \<^verbatim>\<open>setup_audio_stream\<close> does not look at
  the model: without one it does what it does with one.
\<close>

theorem order_checked_by_start_recognition:
  assumes "model s = None"
  shows "start_recognition cfg env s = ([], s, Some (Exception ''RuntimeError'')) \<and>
         setup_audio_stream cfg env s =
           (case setup_audio_stream cfg env (s\<lparr>model := Some m\<rparr>) of
              (tr, s', r) \<Rightarrow> (tr, s'\<lparr>model := None\<rparr>, r))"
  using assms
  by (auto simp: start_recognition_def setup_audio_stream_def split: sum.splits)

theorem order_checked_by_start_recognition_witness:
  "setup_audio_stream cfg_ok env_ok init =
     ([NewPyAudio, OpenStream 3 None, Log ''[LiveTranscriber] Audio stream opened''],
      \<lparr>model = None, recognizer = None, stream = Some 2, p = Some 3\<rparr>, None) \<and>
   model \<lparr>model = None, recognizer = None, stream = Some 2, p = Some 3\<rparr> = None \<and>
   start_recognition cfg_ok env_ok \<lparr>model = None, recognizer = None, stream = Some 2, p = Some 3\<rparr> =
     ([], \<lparr>model = None, recognizer = None, stream = Some 2, p = Some 3\<rparr>,
      Some (Exception ''RuntimeError'')) \<and>
   start_recognition cfg_ok env_ok init = ([], init, Some (Exception ''RuntimeError'')) \<and>
   setup_audio_stream cfg_ok env_ok init =
     (case setup_audio_stream cfg_ok env_ok (init\<lparr>model := Some 0\<rparr>) of
        (tr, s', r) \<Rightarrow> (tr, s'\<lparr>model := None\<rparr>, r))"
proof -
  have a: "model init = None" by (simp add: init_def)
  have b: "model \<lparr>model = None, recognizer = None, stream = Some 2, p = Some 3\<rparr> = None"
    by simp
  have c: "setup_audio_stream cfg_ok env_ok init =
     ([NewPyAudio, OpenStream 3 None, Log ''[LiveTranscriber] Audio stream opened''],
      \<lparr>model = None, recognizer = None, stream = Some 2, p = Some 3\<rparr>, None)"
    by (simp add: setup_audio_stream_def input_device_index_def cfg_ok_def env_ok_def init_def)
  note t1 = order_checked_by_start_recognition[OF a, of cfg_ok env_ok 0]
  note t2 = order_checked_by_start_recognition[OF b, of cfg_ok env_ok 0]
  from t1 have d: "start_recognition cfg_ok env_ok init = ([], init, Some (Exception ''RuntimeError''))"
    by blast
  from t1 have e: "setup_audio_stream cfg_ok env_ok init =
     (case setup_audio_stream cfg_ok env_ok (init\<lparr>model := Some 0\<rparr>) of
        (tr, s', r) \<Rightarrow> (tr, s'\<lparr>model := None\<rparr>, r))" by blast
  from t2 have f: "start_recognition cfg_ok env_ok
       \<lparr>model = None, recognizer = None, stream = Some 2, p = Some 3\<rparr> =
     ([], \<lparr>model = None, recognizer = None, stream = Some 2, p = Some 3\<rparr>,
      Some (Exception ''RuntimeError''))" by blast
  from b c d e f show ?thesis by blast
qed

text \<open>
  Claim C10 as stated fails: when \<^verbatim>\<open>stop_stream()\<close> is left by a \<^verbatim>\<open>KeyboardInterrupt\<close>,
  which is no \<^verbatim>\<open>Exception\<close>, \<^verbatim>\<open>cleanup\<close> raises it, makes no further release call and
  leaves \<^verbatim>\<open>stream\<close> and \<^verbatim>\<open>p\<close> set.
\<close>

theorem cleanup_raises_interrupt_counterexample:
  "cleanup rel_interrupt ready =
     ([StopStream 2],
      \<lparr>model = Some 0, recognizer = Some 1, stream = Some 2, p = Some 3\<rparr>,
      Some KeyboardInterrupt)"
  by (simp add: cleanup_def rel_interrupt_def ready_def)

text \<open>
  Claim C10, amended. In every state of the session, when each of the three release calls
  either returns or raises an \<^verbatim>\<open>Exception\<close> (all three may raise), \<^verbatim>\<open>cleanup\<close> returns
  without an exception and the fields \<^verbatim>\<open>stream\<close> and \<^verbatim>\<open>p\<close> are \<^verbatim>\<open>None\<close> afterwards.
\<close>

theorem cleanup_never_raises:
  assumes "ordinary_release rel"
  shows "snd (snd (cleanup rel s)) = None \<and>
         stream (fst (snd (cleanup rel s))) = None \<and>
         p (fst (snd (cleanup rel s))) = None"
  using cleanup_ordinary[OF assms, of s] by simp

theorem cleanup_never_raises_witness:
  "ordinary_release rel_bad \<and>
   cleanup rel_bad ready =
     ([StopStream 2, CloseStream 2, Terminate 3,
       Log ''[LiveTranscriber] Audio resources cleaned up''],
      \<lparr>model = Some 0, recognizer = Some 1, stream = None, p = None\<rparr>, None) \<and>
   snd (snd (cleanup rel_bad ready)) = None \<and>
   stream (fst (snd (cleanup rel_bad ready))) = None \<and>
   p (fst (snd (cleanup rel_bad ready))) = None"
proof -
  have a: "ordinary_release rel_bad" by (simp add: ordinary_release_def rel_bad_def)
  have b: "cleanup rel_bad ready =
     ([StopStream 2, CloseStream 2, Terminate 3,
       Log ''[LiveTranscriber] Audio resources cleaned up''],
      \<lparr>model = Some 0, recognizer = Some 1, stream = None, p = None\<rparr>, None)"
    by (simp add: cleanup_def cleanup_p_def rel_bad_def ready_def)
  from cleanup_never_raises[OF a, of ready] a b show ?thesis by simp
qed

end
